(* ===== verification/Prelude.thy ===== *)
theory Prelude
  imports Complex_Main "HOL-Library.Multiset" "HOL-Library.Sublist"
    "HOL-Library.Option_ord" "HOL-Library.Product_Lexorder"
begin

text \<open>
  Shared vocabulary of the development: the exceptions the Python sources raise, the
  Python string operations they use, points in time as integers, generic lemmas on
  tables kept as lists of rows, and the interfaces (locales) that several components
  share.
\<close>

section \<open>Collections\<close>

named_theorems frame_simps \<open>what a primitive operation leaves unchanged\<close>
named_theorems wf_intros \<open>primitive operations that keep the database invariant\<close>

section \<open>Exceptions\<close>

text \<open>
  A Python call either raises or returns. The state survives an exception (nothing is
  undone unless a handler rolls the session back), so an operation returns its
  outcome (\<open>Inl\<close> the exception, \<open>Inr\<close> the value) together with the new state.
\<close>

datatype exn =
    UnknownAssetError string
  | IntegrityError string
  | TimeoutError string
  | ActionTimeoutError string
  | ValueError string
  | RuntimeError string
  | OverflowError
  | InvalidCheckTransition string
  | ValidationError string
  | HTTPException int string
  | OtherError string

section \<open>Python strings\<close>

text \<open>\<open>needle in hay\<close> on strings.\<close>

definition str_in :: "string \<Rightarrow> string \<Rightarrow> bool" where
  "str_in needle hay = sublist needle hay"

lemma str_in_Nil [simp]: "str_in (c # cs) [] = False"
  by (simp add: str_in_def)

lemma str_in_Cons [simp]:
  "str_in (c # cs) (d # ds) = (prefix (c # cs) (d # ds) \<or> str_in (c # cs) ds)"
  by (auto simp: str_in_def sublist_Cons_right)

lemma str_in_empty [simp]: "str_in [] hay = True"
  by (simp add: str_in_def)

text \<open>
  \<open>str.lower\<close> on the ASCII letters; every other byte is kept.
\<close>

definition lower_char :: "char \<Rightarrow> char" where
  "lower_char c =
     (let n = (of_char c :: nat) in if 65 \<le> n \<and> n \<le> 90 then char_of (n + 32) else c)"

definition str_lower :: "string \<Rightarrow> string" where
  "str_lower s = map lower_char s"

lemma lower_char_idem [simp]: "lower_char (lower_char c) = lower_char c"
proof (cases "65 \<le> (of_char c :: nat) \<and> (of_char c :: nat) \<le> 90")
  case True
  have "(of_char (char_of ((of_char c :: nat) + 32)) :: nat) = (of_char c + 32) mod 256"
    by simp
  also have "\<dots> = of_char c + 32" using True by simp
  finally show ?thesis using True by (simp add: lower_char_def Let_def)
next
  case False
  then have "lower_char c = c" by (auto simp: lower_char_def Let_def)
  then show ?thesis by simp
qed

lemma str_lower_idem [simp]: "str_lower (str_lower s) = str_lower s"
  by (simp add: str_lower_def)

text \<open>Decimal rendering, as \<open>str(n)\<close> and f-strings do it.\<close>

definition digit_char :: "nat \<Rightarrow> char" where
  "digit_char d = char_of (48 + d)"

fun str_nat :: "nat \<Rightarrow> string" where
  "str_nat n = (if n < 10 then [digit_char n] else str_nat (n div 10) @ [digit_char (n mod 10)])"

declare str_nat.simps [simp del]

definition str_int :: "int \<Rightarrow> string" where
  "str_int i = (if i < 0 then CHR ''-'' # str_nat (nat (- i)) else str_nat (nat i))"

lemma digit_char_inj: "d < 10 \<Longrightarrow> e < 10 \<Longrightarrow> digit_char d = digit_char e \<longleftrightarrow> d = e"
  by (auto simp: digit_char_def char_of_eq_iff take_bit_eq_mod)

lemma str_nat_nonempty [simp]: "str_nat n \<noteq> []"
  by (subst str_nat.simps) simp

lemma str_nat_inj: "str_nat m = str_nat n \<Longrightarrow> m = n"
proof (induction m arbitrary: n rule: str_nat.induct)
  case (1 m)
  show ?case
  proof (cases "m < 10 \<or> n < 10")
    case True
    with "1.prems" show ?thesis
      by (auto simp: str_nat.simps [of m] str_nat.simps [of n] digit_char_inj
          Cons_eq_append_conv append_eq_Cons_conv split: if_splits)
  next
    case False
    with "1.prems" have "str_nat (m div 10) = str_nat (n div 10)"
      and "digit_char (m mod 10) = digit_char (n mod 10)"
      by (auto simp: str_nat.simps [of m] str_nat.simps [of n])
    with False "1.IH" have "m div 10 = n div 10" and "m mod 10 = n mod 10"
      by (auto simp: digit_char_inj)
    then show ?thesis by (metis div_mod_decomp)
  qed
qed

lemma str_nat_eq_iff [simp]: "str_nat m = str_nat n \<longleftrightarrow> m = n"
  using str_nat_inj by blast

text \<open>The truth value of an optional string: \<open>None\<close> and the empty string are false.\<close>

definition truthy :: "string option \<Rightarrow> bool" where
  "truthy s = (case s of None \<Rightarrow> False | Some x \<Rightarrow> x \<noteq> [])"

lemma pred_option_code [code]: "pred_option P None = True" "pred_option P (Some x) = P x"
  by simp_all

section \<open>Time\<close>

text \<open>
  An instant is the number of microseconds since the epoch (the resolution of
  \<open>datetime\<close>), a duration a number of microseconds.
\<close>

type_synonym instant = int

definition minutes :: "int \<Rightarrow> int" where
  "minutes m = m * 60000000"

definition seconds :: "int \<Rightarrow> int" where
  "seconds s = s * 1000000"

text \<open>\<open>timedelta(seconds=x)\<close> for a float \<open>x\<close> rounds to microseconds, half to even.\<close>

definition round_half_even :: "rat \<Rightarrow> int" where
  "round_half_even x =
     (let f = \<lfloor>x\<rfloor>; r = x - of_int f
      in if r < 1 / 2 then f else if 1 / 2 < r then f + 1 else if even f then f else f + 1)"

definition seconds_float :: "rat \<Rightarrow> int" where
  "seconds_float x = round_half_even (x * 1000000)"

lemma round_half_even_of_int [simp]: "round_half_even (of_int i) = i"
  by (simp add: round_half_even_def)

lemma seconds_float_0 [simp]: "seconds_float 0 = 0"
  by (simp add: seconds_float_def round_half_even_def)

lemma round_half_even_nonneg: "0 \<le> x \<Longrightarrow> 0 \<le> round_half_even x"
  by (simp add: round_half_even_def Let_def)

lemma seconds_float_nonneg: "0 \<le> x \<Longrightarrow> 0 \<le> seconds_float x"
  by (simp add: seconds_float_def round_half_even_nonneg)

end
