(* ===== verification/Tables.thy ===== *)
theory Tables
  imports Prelude
begin

text \<open>
  A database table is the list of its rows in the order of insertion. This theory has
  the row operations the services use through the ORM (fetch by key, write back a
  changed object, loop over selected objects), their laws, and the interfaces that the
  components share: a keyed store, a loop that changes selected rows one by one, an order
  of states that operations only climb, and a machine whose steps decrease a rank.
\<close>

section \<open>Rows by key\<close>

definition find_row :: "('r \<Rightarrow> 'k) \<Rightarrow> 'k \<Rightarrow> 'r list \<Rightarrow> 'r option" where
  "find_row key k rows = find (\<lambda>r. key r = k) rows"

definition put_row :: "('r \<Rightarrow> 'k) \<Rightarrow> 'r \<Rightarrow> 'r list \<Rightarrow> 'r list" where
  "put_row key r rows = map (\<lambda>x. if key x = key r then r else x) rows"

lemma find_row_Nil [simp]: "find_row key k [] = None"
  by (simp add: find_row_def)

lemma find_row_Cons [simp]:
  "find_row key k (r # rows) = (if key r = k then Some r else find_row key k rows)"
  by (simp add: find_row_def)

lemma put_row_Nil [simp]: "put_row key r [] = []"
  by (simp add: put_row_def)

lemma put_row_Cons [simp]:
  "put_row key r (x # rows) = (if key x = key r then r else x) # put_row key r rows"
  by (simp add: put_row_def)

lemma find_row_SomeD: "find_row key k rows = Some r \<Longrightarrow> r \<in> set rows \<and> key r = k"
  by (induction rows) (auto split: if_splits)

lemma find_row_None_iff: "find_row key k rows = None \<longleftrightarrow> k \<notin> key ` set rows"
  by (induction rows) auto

lemma find_row_append:
  "find_row key k (xs @ ys) = (case find_row key k xs of None \<Rightarrow> find_row key k ys | Some r \<Rightarrow> Some r)"
  by (induction xs) auto

lemma find_row_unique:
  "distinct (map key rows) \<Longrightarrow> r \<in> set rows \<Longrightarrow> find_row key (key r) rows = Some r"
  by (induction rows) force+

lemma map_key_put_row [simp]: "map key (put_row key r rows) = map key rows"
  by (induction rows) auto

lemma map_other_put_row:
  "(\<And>x. x \<in> set rows \<Longrightarrow> key x = key r \<Longrightarrow> f r = f x) \<Longrightarrow> map f (put_row key r rows) = map f rows"
  by (induction rows) auto

lemma length_put_row [simp]: "length (put_row key r rows) = length rows"
  by (simp add: put_row_def)

lemma set_put_row: "set (put_row key r rows) \<subseteq> insert r (set rows)"
  by (induction rows) auto

lemma in_put_rowD: "x \<in> set (put_row key r rows) \<Longrightarrow> x = r \<or> (x \<in> set rows \<and> key x \<noteq> key r)"
  by (induction rows) (auto split: if_splits)

lemma in_put_row_iff:
  "find_row key (key r) rows \<noteq> None \<Longrightarrow>
   x \<in> set (put_row key r rows) \<longleftrightarrow> x = r \<or> (x \<in> set rows \<and> key x \<noteq> key r)"
  by (auto simp: put_row_def image_iff find_row_None_iff split: if_splits)

lemma put_row_absent: "key r \<notin> key ` set rows \<Longrightarrow> put_row key r rows = rows"
  by (induction rows) auto

lemma find_row_put_same:
  "find_row key (key r) rows \<noteq> None \<Longrightarrow> find_row key (key r) (put_row key r rows) = Some r"
  by (induction rows) auto

lemma find_row_put_other:
  "key r \<noteq> k \<Longrightarrow> find_row key k (put_row key r rows) = find_row key k rows"
  by (induction rows) auto

lemma put_row_put_row:
  "key q = key r \<Longrightarrow> put_row key q (put_row key r rows) = put_row key q rows"
  by (induction rows) auto

lemma image_key_put_row [simp]: "key ` set (put_row key r rows) = key ` set rows"
  by (metis list.set_map map_key_put_row)

lemma rows_from_lookups:
  assumes "distinct (map key xs)" "map key ys = map key xs"
    and "\<And>x. x \<in> set xs \<Longrightarrow> find_row key (key x) ys = Some (f x)"
  shows "ys = map f xs"
proof (rule nth_equalityI)
  show len: "length ys = length (map f xs)" using assms(2) by (metis length_map)
  fix i assume i: "i < length ys"
  then have key: "key (ys ! i) = key (xs ! i)" using assms(2) len by (metis length_map nth_map)
  have "distinct (map key ys)" using assms(1,2) by simp
  from find_row_unique [OF this, of "ys ! i"] i
  have "find_row key (key (xs ! i)) ys = Some (ys ! i)" using key by simp
  moreover have "xs ! i \<in> set xs" using i len by simp
  ultimately show "ys ! i = map f xs ! i" using assms(3) i len by simp
qed

section \<open>A loop over rows\<close>

text \<open>
  \<open>for row in rows: results.append(body(row))\<close>: the body may raise, which ends the
  loop with the state reached so far.
\<close>

fun for_each :: "('r \<Rightarrow> 's \<Rightarrow> ('e + 'b) \<times> 's) \<Rightarrow> 'r list \<Rightarrow> 's \<Rightarrow> ('e + 'b list) \<times> 's" where
  "for_each body [] s = (Inr [], s)"
| "for_each body (r # rs) s =
     (case body r s of
        (Inl e, s') \<Rightarrow> (Inl e, s')
      | (Inr b, s') \<Rightarrow>
          (case for_each body rs s' of
             (Inl e, s'') \<Rightarrow> (Inl e, s'')
           | (Inr bs, s'') \<Rightarrow> (Inr (b # bs), s'')))"

lemma for_each_invariant:
  assumes "\<And>r s. r \<in> set rs \<Longrightarrow> P s \<Longrightarrow> P (snd (body r s))" and "P s"
  shows "P (snd (for_each body rs s))"
  using assms
proof (induction rs arbitrary: s)
  case Nil
  then show ?case by simp
next
  case (Cons r rs)
  obtain x s' where step: "body r s = (x, s')" by fastforce
  have s': "P s'" using Cons.prems(1) [of r s] Cons.prems(2) step by simp
  then have "P (snd (for_each body rs s'))" using Cons by simp
  then show ?case using step s' by (auto split: sum.splits prod.splits)
qed

lemma for_each_length:
  "fst (for_each body rs s) = Inr bs \<Longrightarrow> length bs = length rs"
  by (induction rs arbitrary: s bs) (auto split: sum.splits prod.splits, metis fst_conv)

section \<open>Interface: a keyed store\<close>

text \<open>
  What the services rely on when they fetch an object by primary key and write it back.
\<close>

locale keyed_store =
  fixes get :: "'s \<Rightarrow> 'k \<Rightarrow> 'r option"
    and put :: "'r \<Rightarrow> 's \<Rightarrow> 's"
    and key :: "'r \<Rightarrow> 'k"
  assumes get_key: "get s k = Some r \<Longrightarrow> key r = k"
    and get_put_same: "get s (key r) \<noteq> None \<Longrightarrow> get (put r s) (key r) = Some r"
    and get_put_other: "key r \<noteq> k \<Longrightarrow> get (put r s) k = get s k"
begin

lemma get_put:
  "get s (key r) \<noteq> None \<Longrightarrow> get (put r s) k = (if key r = k then Some r else get s k)"
  using get_put_same get_put_other by auto

lemma get_put_put:
  assumes "get s (key r) \<noteq> None" and "key q = key r"
  shows "get (put q (put r s)) k = get (put q s) k"
  using assms by (auto simp: get_put)

lemma get_put_None: "get s (key r) \<noteq> None \<Longrightarrow> get (put r s) k = None \<longleftrightarrow> get s k = None"
  by (auto simp: get_put)

end

section \<open>Interface: a loop that changes selected rows\<close>

text \<open>
  A service selects rows and changes each in turn. Its body, applied to a stored row
  \<open>r\<close>, returns \<open>out r\<close>, leaves \<open>eff r\<close> in its place and touches no other row. The
  lemmas say what the whole loop then does, row by row.
\<close>

locale row_sweep =
  fixes get :: "'s \<Rightarrow> 'k \<Rightarrow> 'r option"
    and key :: "'r \<Rightarrow> 'k"
    and body :: "'r \<Rightarrow> 's \<Rightarrow> ('e + 'b) \<times> 's"
    and eff :: "'r \<Rightarrow> 'r"
    and out :: "'r \<Rightarrow> 'b"
    and good :: "'r \<Rightarrow> bool"
  assumes body_returns: "get s (key r) = Some r \<Longrightarrow> good r \<Longrightarrow> fst (body r s) = Inr (out r)"
    and body_same: "get s (key r) = Some r \<Longrightarrow> good r \<Longrightarrow> get (snd (body r s)) (key r) = Some (eff r)"
    and body_other: "get s (key r) = Some r \<Longrightarrow> good r \<Longrightarrow> k \<noteq> key r \<Longrightarrow> get (snd (body r s)) k = get s k"
begin

lemma get_after_body:
  assumes "distinct (map key (r # rs))"
    and "\<And>q. q \<in> set (r # rs) \<Longrightarrow> get s (key q) = Some q"
    and "\<And>q. q \<in> set (r # rs) \<Longrightarrow> good q"
    and "q \<in> set rs"
  shows "get (snd (body r s)) (key q) = Some q"
proof -
  have "key q \<noteq> key r" using assms(1,4) by (auto simp: image_iff)
  then have "get (snd (body r s)) (key q) = get s (key q)"
    using assms(2,3) by (intro body_other) simp_all
  then show ?thesis using assms(2,4) by simp
qed

lemma sweep_returns:
  assumes "distinct (map key rs)" and "\<And>r. r \<in> set rs \<Longrightarrow> get s (key r) = Some r"
    and "\<And>r. r \<in> set rs \<Longrightarrow> good r"
  shows "fst (for_each body rs s) = Inr (map out rs)"
  using assms
proof (induction rs arbitrary: s)
  case Nil
  then show ?case by simp
next
  case (Cons r rs)
  let ?s' = "snd (body r s)"
  have step: "body r s = (Inr (out r), ?s')"
    using body_returns [of s r] Cons.prems(2,3) [of r] by (simp add: prod_eq_iff)
  have kept: "get ?s' (key q) = Some q" if "q \<in> set rs" for q
    using get_after_body [OF Cons.prems that] .
  have IH: "fst (for_each body rs ?s') = Inr (map out rs)"
    using Cons.prems(1,3) by (intro Cons.IH kept) simp_all
  obtain s'' where "for_each body rs ?s' = (Inr (map out rs), s'')"
    using IH by (metis prod.collapse)
  then show ?case by (subst for_each.simps(2), subst step) simp
qed

lemma sweep_get:
  assumes "distinct (map key rs)" and "\<And>r. r \<in> set rs \<Longrightarrow> get s (key r) = Some r"
    and "\<And>r. r \<in> set rs \<Longrightarrow> good r"
  shows "get (snd (for_each body rs s)) k =
    (case find_row key k rs of Some r \<Rightarrow> Some (eff r) | None \<Rightarrow> get s k)"
  using assms
proof (induction rs arbitrary: s)
  case Nil
  then show ?case by simp
next
  case (Cons r rs)
  let ?s' = "snd (body r s)"
  have step: "body r s = (Inr (out r), ?s')"
    using body_returns [of s r] Cons.prems(2,3) [of r] by (simp add: prod_eq_iff)
  have kept: "get ?s' (key q) = Some q" if "q \<in> set rs" for q
    using get_after_body [OF Cons.prems that] .
  have IH: "get (snd (for_each body rs ?s')) k =
      (case find_row key k rs of Some q \<Rightarrow> Some (eff q) | None \<Rightarrow> get ?s' k)"
    using Cons.prems(1,3) by (intro Cons.IH kept) simp_all
  have loop: "snd (for_each body (r # rs) s) = snd (for_each body rs ?s')"
    by (subst for_each.simps(2), subst step) (simp split: sum.splits prod.splits)
  have "find_row key k rs = None" if "k = key r"
    using that Cons.prems(1) by (simp add: find_row_None_iff)
  moreover have "get s (key r) = Some r" and "good r" using Cons.prems(2,3) by simp_all
  ultimately show ?case
    using IH loop body_same [of s r] body_other [of s r k]
    by (cases "key r = k") (auto simp del: for_each.simps split: option.splits)
qed

end

section \<open>Interface: an order of states\<close>

text \<open>
  An operation that only moves a state upwards in some order (rows are added and never
  removed, say) keeps doing so in a loop.
\<close>

locale state_order =
  fixes le :: "'s \<Rightarrow> 's \<Rightarrow> bool"
  assumes le_refl: "le s s" and le_trans: "le s t \<Longrightarrow> le t u \<Longrightarrow> le s u"
begin

lemma for_each_le:
  assumes "\<And>r t. r \<in> set rs \<Longrightarrow> le t (snd (body r t))"
  shows "le s (snd (for_each body rs s))"
proof (rule for_each_invariant)
  show "le s (snd (body r t))" if "r \<in> set rs" "le s t" for r t
    using that(2) assms [OF that(1)] by (rule le_trans)
qed (rule le_refl)

lemma fold_le:
  assumes "\<And>r t. le t (step r t)"
  shows "le s (fold step rs s)"
proof (induction rs arbitrary: s)
  case Nil
  then show ?case by (simp add: le_refl)
next
  case (Cons r rs)
  have "le (step r s) (fold step rs (step r s))" by (rule Cons.IH)
  then show ?case using le_trans [OF assms] by simp
qed

end

section \<open>Tables that grow\<close>

text \<open>
  \<open>extends P xs ys\<close>: the rows of \<open>xs\<close> are still there, in their places and each related by
  \<open>P\<close> to what it was; new rows come after them.
\<close>

definition extends :: "('r \<Rightarrow> 'r \<Rightarrow> bool) \<Rightarrow> 'r list \<Rightarrow> 'r list \<Rightarrow> bool" where
  "extends P xs ys \<longleftrightarrow> list_all2 P xs (take (length xs) ys)"

lemma extends_refl [simp]: "reflp P \<Longrightarrow> extends P xs xs"
  by (simp add: extends_def list_all2_same reflpD)

lemma extends_append [simp]: "reflp P \<Longrightarrow> extends P xs (xs @ zs)"
  by (simp add: extends_def list_all2_same reflpD)

lemma extends_trans:
  assumes "transp P" "extends P xs ys" "extends P ys zs"
  shows "extends P xs zs"
proof -
  have len: "length xs \<le> length ys" using assms(2) by (auto simp: extends_def dest!: list_all2_lengthD)
  have "list_all2 P (take (length xs) ys) (take (length xs) (take (length ys) zs))"
    using assms(3) unfolding extends_def by (rule list_all2_takeI)
  then have "list_all2 P (take (length xs) ys) (take (length xs) zs)" using len by (simp add: min_def)
  with assms(2) show ?thesis
    unfolding extends_def by (rule list_all2_trans [rotated 1]) (rule transpD [OF assms(1)])
qed

lemma extends_map:
  assumes "\<And>x. x \<in> set xs \<Longrightarrow> P x (f x)"
  shows "extends P xs (map f xs)"
  using assms by (simp add: extends_def list_all2_conv_all_nth)

lemma extends_put_row:
  assumes "reflp P" "\<And>x. x \<in> set xs \<Longrightarrow> key x = key r \<Longrightarrow> P x r"
  shows "extends P xs (put_row key r xs)"
  unfolding put_row_def using assms by (intro extends_map) (auto dest: reflpD)

text \<open>A row that is fetched, changed and written back.\<close>

lemma extends_put_stored:
  assumes "reflp P" "distinct (map key xs)" "x \<in> set xs" "key x = key r" "P x r"
  shows "extends P xs (put_row key r xs)"
proof (rule extends_put_row [OF assms(1)])
  show "P y r" if "y \<in> set xs" "key y = key r" for y
    using assms that inj_onD [of key "set xs" y x] by (auto simp: distinct_map)
qed

section \<open>Interface: a machine with a rank\<close>

text \<open>
  A life cycle whose every step decreases a rank ends after at most as many steps as
  the rank of its start.
\<close>

locale ranked_machine =
  fixes step :: "'s \<Rightarrow> 's \<Rightarrow> bool"
    and rank :: "'s \<Rightarrow> nat"
  assumes rank_decreases: "step s t \<Longrightarrow> rank t < rank s"
begin

lemma run_bounded: "(step ^^ n) s t \<Longrightarrow> n + rank t \<le> rank s"
proof (induction n arbitrary: t)
  case 0
  then show ?case by simp
next
  case (Suc n)
  then obtain u where "(step ^^ n) s u" and "step u t" by auto
  with Suc.IH [of u] rank_decreases [of u t] show ?case by simp
qed

lemma step_wf: "wfp (\<lambda>t s. step s t)"
  by (rule wfp_if_convertible_to_nat [where f = rank]) (rule rank_decreases)

lemma no_cycle: "step\<^sup>+\<^sup>+ s t \<Longrightarrow> rank t < rank s"
  by (induction rule: tranclp_induct) (auto dest: rank_decreases)

lemma never_back: "\<not> step\<^sup>+\<^sup>+ s s"
  using no_cycle by blast

end

end
