(* ===== verification/Models.thy ===== *)
theory Models
  imports Tables
begin

text \<open>
  The entities of \<open>models.py\<close>: the state enumerations with their stored string values and
  one record per table. Columns of type \<open>str\<close> are strings, also the \<open>state\<close> columns
  (the code stores the enumeration's value); nullable columns are options; instants are
  microseconds. A record field carries the table's name as a prefix.
\<close>

section \<open>State enumerations\<close>

datatype incident_state = IncidentState_OPEN | IncidentState_ACKNOWLEDGED | IncidentState_RESOLVED

fun incident_state_value :: "incident_state \<Rightarrow> string" where
  "incident_state_value IncidentState_OPEN = ''open''"
| "incident_state_value IncidentState_ACKNOWLEDGED = ''acknowledged''"
| "incident_state_value IncidentState_RESOLVED = ''resolved''"

datatype action_state =
    ActionState_QUEUED
  | ActionState_RETRY
  | ActionState_SUCCEEDED
  | ActionState_FAILED
  | ActionState_SKIPPED

fun action_state_value :: "action_state \<Rightarrow> string" where
  "action_state_value ActionState_QUEUED = ''queued''"
| "action_state_value ActionState_RETRY = ''retry''"
| "action_state_value ActionState_SUCCEEDED = ''succeeded''"
| "action_state_value ActionState_FAILED = ''failed''"
| "action_state_value ActionState_SKIPPED = ''skipped''"

datatype check_state =
    CheckState_PENDING
  | CheckState_STARTED
  | CheckState_WAITING_CONFIRMATION
  | CheckState_CONFIRMED
  | CheckState_TIMEOUT
  | CheckState_CANCELLED
  | CheckState_FAILED

fun check_state_value :: "check_state \<Rightarrow> string" where
  "check_state_value CheckState_PENDING = ''pending''"
| "check_state_value CheckState_STARTED = ''started''"
| "check_state_value CheckState_WAITING_CONFIRMATION = ''waiting_confirmation''"
| "check_state_value CheckState_CONFIRMED = ''confirmed''"
| "check_state_value CheckState_TIMEOUT = ''timeout''"
| "check_state_value CheckState_CANCELLED = ''cancelled''"
| "check_state_value CheckState_FAILED = ''failed''"

text \<open>
  Distinct members have distinct values, so a comparison of stored values is a
  comparison of members; the value equations are unfolded on request only.
\<close>

lemma incident_state_value_inj [simp]:
  "incident_state_value s = incident_state_value t \<longleftrightarrow> s = t"
  by (cases s; cases t) simp_all

lemma action_state_value_inj [simp]: "action_state_value s = action_state_value t \<longleftrightarrow> s = t"
  by (cases s; cases t) simp_all

lemma check_state_value_inj [simp]: "check_state_value s = check_state_value t \<longleftrightarrow> s = t"
  by (cases s; cases t) simp_all

lemmas state_values = incident_state_value.simps action_state_value.simps check_state_value.simps

declare state_values [simp del]

text \<open>
  The check states form a finite type, enumerated in the order of the class body, so
  statements over all of them are decided by evaluation.
\<close>

instantiation check_state :: enum
begin

definition enum_check_state :: "check_state list" where
  "enum_check_state =
     [CheckState_PENDING, CheckState_STARTED, CheckState_WAITING_CONFIRMATION,
      CheckState_CONFIRMED, CheckState_TIMEOUT, CheckState_CANCELLED, CheckState_FAILED]"

definition enum_all_check_state :: "(check_state \<Rightarrow> bool) \<Rightarrow> bool" where
  "enum_all_check_state P = list_all P enum_class.enum"

definition enum_ex_check_state :: "(check_state \<Rightarrow> bool) \<Rightarrow> bool" where
  "enum_ex_check_state P = list_ex P enum_class.enum"

instance
proof
  show univ: "(UNIV :: check_state set) = set enum_class.enum"
    by (auto simp: enum_check_state_def intro: check_state.exhaust)
  show "distinct (enum_class.enum :: check_state list)"
    by (simp add: enum_check_state_def)
  show "enum_class.enum_all P \<longleftrightarrow> Ball UNIV P" for P :: "check_state \<Rightarrow> bool"
    by (simp add: enum_all_check_state_def univ list_all_iff)
  show "enum_class.enum_ex P \<longleftrightarrow> Bex UNIV P" for P :: "check_state \<Rightarrow> bool"
    by (simp add: enum_ex_check_state_def univ list_ex_iff)
qed

end

section \<open>Tables\<close>

record asset =
  asset_id :: int
  asset_external_id :: string
  asset_name :: string
  asset_group :: string
  asset_status :: string

record automation_rule =
  rule_id :: int
  rule_name :: string
  rule_category :: string
  rule_minimum_severity :: int
  rule_cooldown_minutes :: int
  rule_action_type :: string
  rule_enabled :: bool

record operational_event =
  event_id :: int
  event_asset_id :: int
  event_source :: string
  event_category :: string
  event_severity :: int
  event_message :: string
  event_correlation_id :: string
  event_created_at :: instant

record incident =
  incident_id :: int
  incident_asset_id :: int
  incident_rule_id :: int
  incident_event_id :: int
  incident_state :: string
  incident_summary :: string
  incident_created_at :: instant
  incident_updated_at :: instant

record action =
  action_id :: int
  action_incident_id :: int
  action_action_type :: string
  action_state :: string
  action_attempts :: int
  action_detail :: string
  action_next_attempt_at :: "instant option"
  action_lease_id :: "string option"
  action_leased_at :: "instant option"
  action_created_at :: instant
  action_updated_at :: instant

record audit_log =
  audit_id :: int
  audit_event_type :: string
  audit_entity_type :: string
  audit_entity_id :: int
  audit_message :: string
  audit_created_at :: instant

record idempotency_record =
  idem_id :: int
  idem_key :: string
  idem_event_id :: "int option"
  idem_incident_id :: "int option"
  idem_action_id :: "int option"
  idem_skipped_reason :: "string option"
  idem_hits :: int
  idem_created_at :: instant
  idem_updated_at :: instant

record job_run =
  job_id :: int
  job_name :: string
  job_status :: string
  job_detail :: string
  job_started_at :: instant
  job_finished_at :: "instant option"

record check_run =
  check_id :: int
  check_name :: string
  check_asset_external_id :: string
  check_state :: string
  check_detail :: string
  check_confirmation_due_at :: "instant option"
  check_created_at :: instant
  check_updated_at :: instant

text \<open>The database: one list of rows per table (\<open>Base.metadata\<close>).\<close>

record database =
  assets :: "asset list"
  rules :: "automation_rule list"
  events :: "operational_event list"
  incidents :: "incident list"
  actions :: "action list"
  audits :: "audit_log list"
  idems :: "idempotency_record list"
  jobs :: "job_run list"
  checks :: "check_run list"

definition empty_database :: database where
  "empty_database =
     \<lparr>assets = [], rules = [], events = [], incidents = [], actions = [], audits = [],
      idems = [], jobs = [], checks = []\<rparr>"

lemma empty_database_simps [simp]:
  "assets empty_database = []" "rules empty_database = []" "events empty_database = []"
  "incidents empty_database = []" "actions empty_database = []" "audits empty_database = []"
  "idems empty_database = []" "jobs empty_database = []" "checks empty_database = []"
  by (simp_all add: empty_database_def)

text \<open>The settings of \<open>core/settings.py\<close>, with their defaults.\<close>

record settings =
  database_url :: string
  sqlite_mode :: string
  action_timeout_seconds :: rat
  action_max_attempts :: int
  action_retry_delay_seconds :: rat
  action_lease_seconds :: int
  max_queue_backlog :: int

definition default_settings :: settings where
  "default_settings =
     \<lparr>database_url = ''sqlite:///./support_ops_demo.sqlite3'',
      sqlite_mode = ''standard'',
      action_timeout_seconds = 1 / 5,
      action_max_attempts = 3,
      action_retry_delay_seconds = 0,
      action_lease_seconds = 60,
      max_queue_backlog = 10000\<rparr>"

end
