(* ===== verification/Session.thy ===== *)
theory Session
  imports Models
begin

text \<open>
  The ORM session as the services use it, and the world outside it. The world holds the
  session's view of the database (\<open>db\<close>), the last committed database (\<open>saved\<close>) and
  the number of readings taken from the environment so far (\<open>reads\<close>). The environment
  is a parameter of every operation: the clock, the UUID source, what other sessions
  commit while this one waits, and the documented freedom of the SQL engine, which
  chooses the primary key of a new row and the order of rows that no
  \<open>ORDER BY\<close> fixes.

  A row is added to its table where the code adds the object to the session: autoflush
  makes a pending object visible to every later query of the session, and commit or
  rollback treat it as part of the transaction.

  The engine is SQLite, reached through Python's \<open>sqlite3\<close> as \<open>build_engine\<close> configures it by
  default: strings are stored at any length, and a transaction begins with the first
  \<open>INSERT\<close>, \<open>UPDATE\<close> or \<open>DELETE\<close>, not with a query and not with a savepoint.
\<close>

section \<open>Environment and world\<close>

record env =
  clock :: "nat \<Rightarrow> instant"
  uuid_hex :: "nat \<Rightarrow> string"
  peers :: "nat \<Rightarrow> database \<Rightarrow> database"
  new_id :: "int list \<Rightarrow> int"
  scan_rules :: "automation_rule list \<Rightarrow> automation_rule list"
  scan_incidents :: "incident list \<Rightarrow> incident list"
  scan_actions :: "action list \<Rightarrow> action list"
  scan_checks :: "check_run list \<Rightarrow> check_run list"
  scan_audits :: "audit_log list \<Rightarrow> audit_log list"
  cfg :: settings

record world =
  db :: database
  saved :: database
  reads :: nat

type_synonym 'a outcome = "(exn + 'a) \<times> world"

text \<open>
  What the code relies on of the SQL engine: a generated primary key is positive and
  not in use (the rowid of SQLite), and a \<open>SELECT\<close> without
  an order returns the rows of the table in some order.
\<close>

definition ids_ok :: "env \<Rightarrow> bool" where
  "ids_ok E \<longleftrightarrow> (\<forall>ids. new_id E ids \<notin> set ids \<and> 0 < new_id E ids)"

definition scans_ok :: "env \<Rightarrow> bool" where
  "scans_ok E \<longleftrightarrow>
     (\<forall>rs. mset (scan_rules E rs) = mset rs) \<and>
     (\<forall>is. mset (scan_incidents E is) = mset is) \<and>
     (\<forall>acs. mset (scan_actions E acs) = mset acs) \<and>
     (\<forall>cs. mset (scan_checks E cs) = mset cs) \<and>
     (\<forall>ls. mset (scan_audits E ls) = mset ls)"

text \<open>Time does not run backwards between readings.\<close>

definition clock_ok :: "env \<Rightarrow> bool" where
  "clock_ok E \<longleftrightarrow> (\<forall>m n. m \<le> n \<longrightarrow> clock E m \<le> clock E n)"

text \<open>
  A reference environment, used where a theorem is applied to concrete input: SQLite's
  rule for new row identifiers (one more than the largest in use), rows in insertion
  order, a clock that ticks one microsecond per reading and no other session.
\<close>

definition sqlite_new_id :: "int list \<Rightarrow> int" where
  "sqlite_new_id ids = 1 + foldr max ids 0"

definition demo_env :: env where
  "demo_env =
     \<lparr>clock = (\<lambda>n. 1000000000000 + int n), uuid_hex = (\<lambda>n. str_nat n), peers = (\<lambda>_ d. d),
      new_id = sqlite_new_id, scan_rules = (\<lambda>x. x), scan_incidents = (\<lambda>x. x),
      scan_actions = (\<lambda>x. x), scan_checks = (\<lambda>x. x),
      scan_audits = (\<lambda>x. x), cfg = default_settings\<rparr>"

lemma demo_env_simps [simp]:
  "clock demo_env n = 1000000000000 + int n" "uuid_hex demo_env n = str_nat n"
  "peers demo_env n d = d" "new_id demo_env ids = sqlite_new_id ids"
  "scan_rules demo_env rs = rs" "scan_incidents demo_env ins = ins"
  "scan_actions demo_env acs = acs" "scan_checks demo_env cs = cs"
  "scan_audits demo_env ls = ls"
  "cfg demo_env = default_settings"
  by (simp_all add: demo_env_def)

lemma foldr_max_ge: "(x :: int) \<in> set xs \<Longrightarrow> x \<le> foldr max xs 0"
  by (induction xs) auto

lemma foldr_max_nonneg: "(0 :: int) \<le> foldr max xs 0"
  by (induction xs) auto

lemma sqlite_new_id_fresh: "sqlite_new_id ids \<notin> set ids \<and> 0 < sqlite_new_id ids"
  using foldr_max_nonneg [of ids] foldr_max_ge [of "sqlite_new_id ids" ids]
  by (auto simp: sqlite_new_id_def)

lemma demo_env_ok [simp]: "ids_ok demo_env" "scans_ok demo_env" "clock_ok demo_env"
  by (simp_all add: ids_ok_def scans_ok_def clock_ok_def demo_env_def sqlite_new_id_fresh)

lemma ids_okD: "ids_ok E \<Longrightarrow> new_id E ids \<notin> set ids" "ids_ok E \<Longrightarrow> 0 < new_id E ids"
  by (auto simp: ids_ok_def)

lemma scan_sets:
  assumes "scans_ok E"
  shows "set (scan_rules E rs) = set rs" "set (scan_incidents E is) = set is"
    "set (scan_actions E acs) = set acs" "set (scan_checks E cs) = set cs"
    "set (scan_audits E ls) = set ls"
  using assms unfolding scans_ok_def by (metis set_mset_mset)+

lemma scan_distinct:
  assumes "scans_ok E"
  shows "distinct (map rk (scan_rules E rs)) = distinct (map rk rs)"
    "distinct (map ik (scan_incidents E is)) = distinct (map ik is)"
    "distinct (map ak (scan_actions E acs)) = distinct (map ak acs)"
    "distinct (map ck (scan_checks E cs)) = distinct (map ck cs)"
    "distinct (map lk (scan_audits E ls)) = distinct (map lk ls)"
  using assms unfolding scans_ok_def by (metis mset_eq_imp_distinct_iff mset_map)+

section \<open>Transactions\<close>

definition commit :: "world \<Rightarrow> world" where
  "commit w = w\<lparr>saved := db w\<rparr>"

definition rollback :: "world \<Rightarrow> world" where
  "rollback w = w\<lparr>db := saved w\<rparr>"

text \<open>
  A session that has written nothing yet sees what other sessions commit; once it has
  written, SQLite's single-writer lock keeps the others out until it commits or rolls
  back.
\<close>

definition peer_commit :: "env \<Rightarrow> world \<Rightarrow> world" where
  "peer_commit E w =
     (if db w = saved w
      then w\<lparr>db := peers E (reads w) (saved w), saved := peers E (reads w) (saved w),
             reads := reads w + 1\<rparr>
      else w)"

text \<open>
  The end of a \<open>with session.begin_nested()\<close> block that was entered in the world \<open>w0\<close> and has
  made it \<open>w\<close>: \<open>RELEASE\<close> of its savepoint. In a session that had written nothing, no
  transaction was open, the savepoint is SQLite's outermost transaction, and releasing
  it commits. Inside an open transaction it only joins the savepoint's work to it. A
  session has an open transaction when it differs from the committed database: every
  statement of the code that writes before a nested block adds a row.
\<close>

definition release_savepoint :: "world \<Rightarrow> world \<Rightarrow> world" where
  "release_savepoint w0 w = (if db w0 = saved w0 then commit w else w)"

definition now_utc :: "env \<Rightarrow> world \<Rightarrow> instant \<times> world" where
  "now_utc E w = (clock E (reads w), w\<lparr>reads := reads w + 1\<rparr>)"

definition uuid4_hex :: "env \<Rightarrow> world \<Rightarrow> string \<times> world" where
  "uuid4_hex E w = (uuid_hex E (reads w), w\<lparr>reads := reads w + 1\<rparr>)"

text \<open>\<open>now = now or datetime.now(UTC)\<close>\<close>

definition now_or :: "env \<Rightarrow> instant option \<Rightarrow> world \<Rightarrow> instant \<times> world" where
  "now_or E now w = (case now of Some t \<Rightarrow> (t, w) | None \<Rightarrow> now_utc E w)"

lemma transaction_simps [simp]:
  "db (commit w) = db w" "saved (commit w) = db w" "reads (commit w) = reads w"
  "db (rollback w) = saved w" "saved (rollback w) = saved w" "reads (rollback w) = reads w"
  by (simp_all add: commit_def rollback_def)

lemma release_simps [simp]:
  "db (release_savepoint w0 w) = db w" "reads (release_savepoint w0 w) = reads w"
  "saved (release_savepoint w0 w) = (if db w0 = saved w0 then db w else saved w)"
  by (simp_all add: release_savepoint_def)

lemma now_utc_simps [simp]:
  "fst (now_utc E w) = clock E (reads w)" "db (snd (now_utc E w)) = db w"
  "saved (snd (now_utc E w)) = saved w" "reads (snd (now_utc E w)) = reads w + 1"
  by (simp_all add: now_utc_def)

lemma now_or_simps [simp]:
  "now_or E (Some t) w = (t, w)" "now_or E None w = now_utc E w"
  "db (snd (now_or E n w)) = db w" "saved (snd (now_or E n w)) = saved w"
  by (simp_all add: now_or_def split: option.split)

section \<open>Adding rows\<close>

text \<open>
  Inserts with the column defaults of \<open>models.py\<close>: each \<open>default=lambda: datetime.now(UTC)\<close>
  is one reading of the clock.
\<close>

definition add_event ::
  "env \<Rightarrow> int \<Rightarrow> string \<Rightarrow> string \<Rightarrow> int \<Rightarrow> string \<Rightarrow> string \<Rightarrow> world \<Rightarrow> operational_event \<times> world" where
  "add_event E aid src cat sev msg corr w =
     (let e = \<lparr>event_id = new_id E (map event_id (events (db w))), event_asset_id = aid,
               event_source = src, event_category = cat, event_severity = sev,
               event_message = msg, event_correlation_id = corr,
               event_created_at = clock E (reads w)\<rparr>
      in (e, w\<lparr>db := (db w)\<lparr>events := events (db w) @ [e]\<rparr>, reads := reads w + 1\<rparr>))"

definition add_incident ::
  "env \<Rightarrow> int \<Rightarrow> int \<Rightarrow> int \<Rightarrow> string \<Rightarrow> string \<Rightarrow> world \<Rightarrow> incident \<times> world" where
  "add_incident E aid rid eid st summary w =
     (let i = \<lparr>incident_id = new_id E (map incident_id (incidents (db w))),
               incident_asset_id = aid, incident_rule_id = rid, incident_event_id = eid,
               incident_state = st, incident_summary = summary,
               incident_created_at = clock E (reads w),
               incident_updated_at = clock E (reads w + 1)\<rparr>
      in (i, w\<lparr>db := (db w)\<lparr>incidents := incidents (db w) @ [i]\<rparr>, reads := reads w + 2\<rparr>))"

definition add_action ::
  "env \<Rightarrow> int \<Rightarrow> string \<Rightarrow> string \<Rightarrow> instant option \<Rightarrow> world \<Rightarrow> action \<times> world" where
  "add_action E iid ty detail next_at w =
     (let a = \<lparr>action_id = new_id E (map action_id (actions (db w))),
               action_incident_id = iid, action_action_type = ty,
               action_state = action_state_value ActionState_QUEUED,
               action_attempts = 0, action_detail = detail,
               action_next_attempt_at = next_at, action_lease_id = None,
               action_leased_at = None, action_created_at = clock E (reads w),
               action_updated_at = clock E (reads w + 1)\<rparr>
      in (a, w\<lparr>db := (db w)\<lparr>actions := actions (db w) @ [a]\<rparr>, reads := reads w + 2\<rparr>))"

definition add_audit :: "env \<Rightarrow> string \<Rightarrow> string \<Rightarrow> int \<Rightarrow> string \<Rightarrow> world \<Rightarrow> world" where
  "add_audit E event_type entity_type entity_id message w =
     w\<lparr>db := (db w)\<lparr>audits := audits (db w) @
          [\<lparr>audit_id = new_id E (map audit_id (audits (db w))),
            audit_event_type = event_type, audit_entity_type = entity_type,
            audit_entity_id = entity_id, audit_message = message,
            audit_created_at = clock E (reads w)\<rparr>]\<rparr>,
       reads := reads w + 1\<rparr>"

definition add_job :: "env \<Rightarrow> string \<Rightarrow> string \<Rightarrow> string \<Rightarrow> instant option \<Rightarrow> world \<Rightarrow> world" where
  "add_job E name status detail finished w =
     w\<lparr>db := (db w)\<lparr>jobs := jobs (db w) @
          [\<lparr>job_id = new_id E (map job_id (jobs (db w))), job_name = name,
            job_status = status, job_detail = detail,
            job_started_at = clock E (reads w), job_finished_at = finished\<rparr>]\<rparr>,
       reads := reads w + 1\<rparr>"

definition add_check :: "env \<Rightarrow> string \<Rightarrow> string \<Rightarrow> string \<Rightarrow> instant \<Rightarrow> world \<Rightarrow> check_run \<times> world" where
  "add_check E name aext detail now w =
     (let c = \<lparr>check_id = new_id E (map check_id (checks (db w))), check_name = name,
               check_asset_external_id = aext,
               check_state = check_state_value CheckState_PENDING, check_detail = detail,
               check_confirmation_due_at = None, check_created_at = now,
               check_updated_at = now\<rparr>
      in (c, w\<lparr>db := (db w)\<lparr>checks := checks (db w) @ [c]\<rparr>\<rparr>))"

text \<open>Tables with a unique constraint: a second row with the same key is an \<open>IntegrityError\<close>.\<close>

definition add_asset :: "env \<Rightarrow> string \<Rightarrow> string \<Rightarrow> string \<Rightarrow> string \<Rightarrow> world \<Rightarrow> asset outcome" where
  "add_asset E ext name grp status w =
     (if ext \<in> asset_external_id ` set (assets (db w))
      then (Inl (IntegrityError ''assets.external_id''), w)
      else let a = \<lparr>asset_id = new_id E (map asset_id (assets (db w))),
                    asset_external_id = ext, asset_name = name, asset_group = grp,
                    asset_status = status\<rparr>
           in (Inr a, w\<lparr>db := (db w)\<lparr>assets := assets (db w) @ [a]\<rparr>\<rparr>))"

definition add_rule ::
  "env \<Rightarrow> string \<Rightarrow> string \<Rightarrow> int \<Rightarrow> int \<Rightarrow> string \<Rightarrow> bool \<Rightarrow> world \<Rightarrow> automation_rule outcome" where
  "add_rule E name cat minsev cooldown ty enabled w =
     (if (name, cat) \<in> (\<lambda>r. (rule_name r, rule_category r)) ` set (rules (db w))
      then (Inl (IntegrityError ''uq_rule_name_category''), w)
      else let r = \<lparr>rule_id = new_id E (map rule_id (rules (db w))), rule_name = name,
                    rule_category = cat, rule_minimum_severity = minsev,
                    rule_cooldown_minutes = cooldown, rule_action_type = ty,
                    rule_enabled = enabled\<rparr>
           in (Inr r, w\<lparr>db := (db w)\<lparr>rules := rules (db w) @ [r]\<rparr>\<rparr>))"

definition add_idem :: "env \<Rightarrow> string \<Rightarrow> world \<Rightarrow> idempotency_record outcome" where
  "add_idem E k w =
     (if k \<in> idem_key ` set (idems (db w))
      then (Inl (IntegrityError ''idempotency_records.key''), w)
      else let r = \<lparr>idem_id = new_id E (map idem_id (idems (db w))), idem_key = k,
                    idem_event_id = None, idem_incident_id = None, idem_action_id = None,
                    idem_skipped_reason = None, idem_hits = 0,
                    idem_created_at = clock E (reads w),
                    idem_updated_at = clock E (reads w + 1)\<rparr>
           in (Inr r, w\<lparr>db := (db w)\<lparr>idems := idems (db w) @ [r]\<rparr>, reads := reads w + 2\<rparr>))"

section \<open>Fetching and changing rows\<close>

definition get_event :: "world \<Rightarrow> int \<Rightarrow> operational_event option" where
  "get_event w k = find_row event_id k (events (db w))"

definition get_incident :: "world \<Rightarrow> int \<Rightarrow> incident option" where
  "get_incident w k = find_row incident_id k (incidents (db w))"

definition get_action :: "world \<Rightarrow> int \<Rightarrow> action option" where
  "get_action w k = find_row action_id k (actions (db w))"

definition get_check :: "world \<Rightarrow> int \<Rightarrow> check_run option" where
  "get_check w k = find_row check_id k (checks (db w))"

definition get_idem :: "world \<Rightarrow> int \<Rightarrow> idempotency_record option" where
  "get_idem w k = find_row idem_id k (idems (db w))"

definition find_asset :: "string \<Rightarrow> world \<Rightarrow> asset option" where
  "find_asset ext w = find_row asset_external_id ext (assets (db w))"

definition find_idem :: "string \<Rightarrow> world \<Rightarrow> idempotency_record option" where
  "find_idem k w = find_row idem_key k (idems (db w))"

definition put_asset :: "asset \<Rightarrow> world \<Rightarrow> world" where
  "put_asset a w = w\<lparr>db := (db w)\<lparr>assets := put_row asset_id a (assets (db w))\<rparr>\<rparr>"

definition put_action :: "action \<Rightarrow> world \<Rightarrow> world" where
  "put_action a w = w\<lparr>db := (db w)\<lparr>actions := put_row action_id a (actions (db w))\<rparr>\<rparr>"

definition put_idem :: "idempotency_record \<Rightarrow> world \<Rightarrow> world" where
  "put_idem r w = w\<lparr>db := (db w)\<lparr>idems := put_row idem_id r (idems (db w))\<rparr>\<rparr>"

definition put_check :: "check_run \<Rightarrow> world \<Rightarrow> world" where
  "put_check c w = w\<lparr>db := (db w)\<lparr>checks := put_row check_id c (checks (db w))\<rparr>\<rparr>"

lemmas session_ops =
  add_event_def add_incident_def add_action_def add_audit_def add_job_def add_check_def
  add_asset_def add_rule_def add_idem_def put_asset_def put_action_def put_idem_def
  put_check_def

lemmas session_queries =
  get_event_def get_incident_def get_action_def get_check_def get_idem_def
  find_asset_def find_idem_def

section \<open>What each primitive leaves unchanged\<close>

lemma add_event_frame [simp]:
  shows "assets (db (snd (add_event E aid src cat sev msg corr w))) = assets (db w)" "rules (db (snd (add_event E aid src cat sev msg corr w))) = rules (db w)"
    "incidents (db (snd (add_event E aid src cat sev msg corr w))) = incidents (db w)" "actions (db (snd (add_event E aid src cat sev msg corr w))) = actions (db w)"
    "audits (db (snd (add_event E aid src cat sev msg corr w))) = audits (db w)" "idems (db (snd (add_event E aid src cat sev msg corr w))) = idems (db w)"
    "jobs (db (snd (add_event E aid src cat sev msg corr w))) = jobs (db w)" "checks (db (snd (add_event E aid src cat sev msg corr w))) = checks (db w)"
    "saved (snd (add_event E aid src cat sev msg corr w)) = saved w" "events (db (snd (add_event E aid src cat sev msg corr w))) = events (db w) @ [fst (add_event E aid src cat sev msg corr w)]"
  by (simp_all add: add_event_def Let_def)

lemma add_incident_frame [simp]:
  shows "assets (db (snd (add_incident E aid rid eid st summary w))) = assets (db w)" "rules (db (snd (add_incident E aid rid eid st summary w))) = rules (db w)"
    "events (db (snd (add_incident E aid rid eid st summary w))) = events (db w)" "actions (db (snd (add_incident E aid rid eid st summary w))) = actions (db w)"
    "audits (db (snd (add_incident E aid rid eid st summary w))) = audits (db w)" "idems (db (snd (add_incident E aid rid eid st summary w))) = idems (db w)"
    "jobs (db (snd (add_incident E aid rid eid st summary w))) = jobs (db w)" "checks (db (snd (add_incident E aid rid eid st summary w))) = checks (db w)"
    "saved (snd (add_incident E aid rid eid st summary w)) = saved w" "incidents (db (snd (add_incident E aid rid eid st summary w))) = incidents (db w) @ [fst (add_incident E aid rid eid st summary w)]"
  by (simp_all add: add_incident_def Let_def)

lemma add_action_frame [simp]:
  shows "assets (db (snd (add_action E iid ty detail next_at w))) = assets (db w)" "rules (db (snd (add_action E iid ty detail next_at w))) = rules (db w)"
    "events (db (snd (add_action E iid ty detail next_at w))) = events (db w)" "incidents (db (snd (add_action E iid ty detail next_at w))) = incidents (db w)"
    "audits (db (snd (add_action E iid ty detail next_at w))) = audits (db w)" "idems (db (snd (add_action E iid ty detail next_at w))) = idems (db w)"
    "jobs (db (snd (add_action E iid ty detail next_at w))) = jobs (db w)" "checks (db (snd (add_action E iid ty detail next_at w))) = checks (db w)"
    "saved (snd (add_action E iid ty detail next_at w)) = saved w" "actions (db (snd (add_action E iid ty detail next_at w))) = actions (db w) @ [fst (add_action E iid ty detail next_at w)]"
  by (simp_all add: add_action_def Let_def)

lemma add_check_frame [simp]:
  shows "assets (db (snd (add_check E name aext detail now w))) = assets (db w)" "rules (db (snd (add_check E name aext detail now w))) = rules (db w)"
    "events (db (snd (add_check E name aext detail now w))) = events (db w)" "incidents (db (snd (add_check E name aext detail now w))) = incidents (db w)"
    "actions (db (snd (add_check E name aext detail now w))) = actions (db w)" "audits (db (snd (add_check E name aext detail now w))) = audits (db w)"
    "idems (db (snd (add_check E name aext detail now w))) = idems (db w)" "jobs (db (snd (add_check E name aext detail now w))) = jobs (db w)"
    "saved (snd (add_check E name aext detail now w)) = saved w" "checks (db (snd (add_check E name aext detail now w))) = checks (db w) @ [fst (add_check E name aext detail now w)]"
  by (simp_all add: add_check_def Let_def)

lemma add_audit_frame [simp]:
  shows "assets (db (add_audit E et en ei msg w)) = assets (db w)" "rules (db (add_audit E et en ei msg w)) = rules (db w)"
    "events (db (add_audit E et en ei msg w)) = events (db w)" "incidents (db (add_audit E et en ei msg w)) = incidents (db w)"
    "actions (db (add_audit E et en ei msg w)) = actions (db w)" "idems (db (add_audit E et en ei msg w)) = idems (db w)"
    "jobs (db (add_audit E et en ei msg w)) = jobs (db w)" "checks (db (add_audit E et en ei msg w)) = checks (db w)"
    "saved (add_audit E et en ei msg w) = saved w"
  by (simp_all add: add_audit_def Let_def)

lemma add_job_frame [simp]:
  shows "assets (db (add_job E name status detail finished w)) = assets (db w)" "rules (db (add_job E name status detail finished w)) = rules (db w)"
    "events (db (add_job E name status detail finished w)) = events (db w)" "incidents (db (add_job E name status detail finished w)) = incidents (db w)"
    "actions (db (add_job E name status detail finished w)) = actions (db w)" "audits (db (add_job E name status detail finished w)) = audits (db w)"
    "idems (db (add_job E name status detail finished w)) = idems (db w)" "checks (db (add_job E name status detail finished w)) = checks (db w)"
    "saved (add_job E name status detail finished w) = saved w"
  by (simp_all add: add_job_def Let_def)

lemma add_asset_frame [simp]:
  shows "rules (db (snd (add_asset E ext name grp status w))) = rules (db w)" "events (db (snd (add_asset E ext name grp status w))) = events (db w)"
    "incidents (db (snd (add_asset E ext name grp status w))) = incidents (db w)" "actions (db (snd (add_asset E ext name grp status w))) = actions (db w)"
    "audits (db (snd (add_asset E ext name grp status w))) = audits (db w)" "idems (db (snd (add_asset E ext name grp status w))) = idems (db w)"
    "jobs (db (snd (add_asset E ext name grp status w))) = jobs (db w)" "checks (db (snd (add_asset E ext name grp status w))) = checks (db w)"
    "saved (snd (add_asset E ext name grp status w)) = saved w"
  by (simp_all add: add_asset_def Let_def)

lemma add_rule_frame [simp]:
  shows "assets (db (snd (add_rule E name cat minsev cooldown ty enabled w))) = assets (db w)" "events (db (snd (add_rule E name cat minsev cooldown ty enabled w))) = events (db w)"
    "incidents (db (snd (add_rule E name cat minsev cooldown ty enabled w))) = incidents (db w)" "actions (db (snd (add_rule E name cat minsev cooldown ty enabled w))) = actions (db w)"
    "audits (db (snd (add_rule E name cat minsev cooldown ty enabled w))) = audits (db w)" "idems (db (snd (add_rule E name cat minsev cooldown ty enabled w))) = idems (db w)"
    "jobs (db (snd (add_rule E name cat minsev cooldown ty enabled w))) = jobs (db w)" "checks (db (snd (add_rule E name cat minsev cooldown ty enabled w))) = checks (db w)"
    "saved (snd (add_rule E name cat minsev cooldown ty enabled w)) = saved w"
  by (simp_all add: add_rule_def Let_def)

lemma add_idem_frame [simp]:
  shows "assets (db (snd (add_idem E k w))) = assets (db w)" "rules (db (snd (add_idem E k w))) = rules (db w)"
    "events (db (snd (add_idem E k w))) = events (db w)" "incidents (db (snd (add_idem E k w))) = incidents (db w)"
    "actions (db (snd (add_idem E k w))) = actions (db w)" "audits (db (snd (add_idem E k w))) = audits (db w)"
    "jobs (db (snd (add_idem E k w))) = jobs (db w)" "checks (db (snd (add_idem E k w))) = checks (db w)"
    "saved (snd (add_idem E k w)) = saved w"
  by (simp_all add: add_idem_def Let_def)

lemma put_asset_frame [simp]:
  shows "rules (db (put_asset a w)) = rules (db w)" "events (db (put_asset a w)) = events (db w)"
    "incidents (db (put_asset a w)) = incidents (db w)" "actions (db (put_asset a w)) = actions (db w)"
    "audits (db (put_asset a w)) = audits (db w)" "idems (db (put_asset a w)) = idems (db w)"
    "jobs (db (put_asset a w)) = jobs (db w)" "checks (db (put_asset a w)) = checks (db w)"
    "saved (put_asset a w) = saved w" "assets (db (put_asset a w)) = put_row asset_id a (assets (db w))"
  by (simp_all add: put_asset_def Let_def)

lemma put_action_frame [simp]:
  shows "assets (db (put_action a w)) = assets (db w)" "rules (db (put_action a w)) = rules (db w)"
    "events (db (put_action a w)) = events (db w)" "incidents (db (put_action a w)) = incidents (db w)"
    "audits (db (put_action a w)) = audits (db w)" "idems (db (put_action a w)) = idems (db w)"
    "jobs (db (put_action a w)) = jobs (db w)" "checks (db (put_action a w)) = checks (db w)"
    "saved (put_action a w) = saved w" "actions (db (put_action a w)) = put_row action_id a (actions (db w))"
  by (simp_all add: put_action_def Let_def)

lemma put_idem_frame [simp]:
  shows "assets (db (put_idem r w)) = assets (db w)" "rules (db (put_idem r w)) = rules (db w)"
    "events (db (put_idem r w)) = events (db w)" "incidents (db (put_idem r w)) = incidents (db w)"
    "actions (db (put_idem r w)) = actions (db w)" "audits (db (put_idem r w)) = audits (db w)"
    "jobs (db (put_idem r w)) = jobs (db w)" "checks (db (put_idem r w)) = checks (db w)"
    "saved (put_idem r w) = saved w" "idems (db (put_idem r w)) = put_row idem_id r (idems (db w))"
  by (simp_all add: put_idem_def Let_def)

lemma put_check_frame [simp]:
  shows "assets (db (put_check c w)) = assets (db w)" "rules (db (put_check c w)) = rules (db w)"
    "events (db (put_check c w)) = events (db w)" "incidents (db (put_check c w)) = incidents (db w)"
    "actions (db (put_check c w)) = actions (db w)" "audits (db (put_check c w)) = audits (db w)"
    "idems (db (put_check c w)) = idems (db w)" "jobs (db (put_check c w)) = jobs (db w)"
    "saved (put_check c w) = saved w" "checks (db (put_check c w)) = put_row check_id c (checks (db w))"
  by (simp_all add: put_check_def Let_def)

lemma add_event_row [simp]:
  "event_id (fst (add_event E aid src cat sev msg corr w)) = new_id E (map event_id (events (db w)))"
  "event_asset_id (fst (add_event E aid src cat sev msg corr w)) = aid"
  "event_source (fst (add_event E aid src cat sev msg corr w)) = src"
  "event_category (fst (add_event E aid src cat sev msg corr w)) = cat"
  "event_severity (fst (add_event E aid src cat sev msg corr w)) = sev"
  "event_message (fst (add_event E aid src cat sev msg corr w)) = msg"
  "event_correlation_id (fst (add_event E aid src cat sev msg corr w)) = corr"
  by (simp_all add: add_event_def Let_def)

lemma add_incident_row [simp]:
  "incident_id (fst (add_incident E aid rid eid st summary w)) =
     new_id E (map incident_id (incidents (db w)))"
  "incident_asset_id (fst (add_incident E aid rid eid st summary w)) = aid"
  "incident_rule_id (fst (add_incident E aid rid eid st summary w)) = rid"
  "incident_event_id (fst (add_incident E aid rid eid st summary w)) = eid"
  "incident_state (fst (add_incident E aid rid eid st summary w)) = st"
  "incident_summary (fst (add_incident E aid rid eid st summary w)) = summary"
  "incident_created_at (fst (add_incident E aid rid eid st summary w)) = clock E (reads w)"
  by (simp_all add: add_incident_def Let_def)

lemma add_action_row [simp]:
  "action_id (fst (add_action E iid ty detail next_at w)) = new_id E (map action_id (actions (db w)))"
  "action_incident_id (fst (add_action E iid ty detail next_at w)) = iid"
  "action_action_type (fst (add_action E iid ty detail next_at w)) = ty"
  "action_state (fst (add_action E iid ty detail next_at w)) = action_state_value ActionState_QUEUED"
  "action_attempts (fst (add_action E iid ty detail next_at w)) = 0"
  "action_detail (fst (add_action E iid ty detail next_at w)) = detail"
  "action_next_attempt_at (fst (add_action E iid ty detail next_at w)) = next_at"
  "action_lease_id (fst (add_action E iid ty detail next_at w)) = None"
  "action_leased_at (fst (add_action E iid ty detail next_at w)) = None"
  by (simp_all add: add_action_def Let_def)

lemma add_check_row [simp]:
  "check_id (fst (add_check E name aext detail now w)) = new_id E (map check_id (checks (db w)))"
  "check_name (fst (add_check E name aext detail now w)) = name"
  "check_asset_external_id (fst (add_check E name aext detail now w)) = aext"
  "check_state (fst (add_check E name aext detail now w)) = check_state_value CheckState_PENDING"
  "check_detail (fst (add_check E name aext detail now w)) = detail"
  "check_confirmation_due_at (fst (add_check E name aext detail now w)) = None"
  "check_created_at (fst (add_check E name aext detail now w)) = now"
  "check_updated_at (fst (add_check E name aext detail now w)) = now"
  by (simp_all add: add_check_def Let_def)

lemma add_audit_audits [simp]:
  "map audit_event_type (audits (db (add_audit E et en ei msg w))) =
     map audit_event_type (audits (db w)) @ [et]"
  by (simp add: add_audit_def)

text \<open>The three tables whose rows the services fetch by key and change are keyed stores.\<close>

interpretation action_store: keyed_store get_action put_action action_id
  by unfold_locales
    (auto simp: get_action_def put_action_def find_row_put_same find_row_put_other
      dest: find_row_SomeD)

interpretation check_store: keyed_store get_check put_check check_id
  by unfold_locales
    (auto simp: get_check_def put_check_def find_row_put_same find_row_put_other
      dest: find_row_SomeD)

interpretation idem_store: keyed_store get_idem put_idem idem_id
  by unfold_locales
    (auto simp: get_idem_def put_idem_def find_row_put_same find_row_put_other
      dest: find_row_SomeD)

end
