(* ===== verification/Schemas.thy ===== *)
theory Schemas
  imports Session
begin

text \<open>
  The request bodies of \<open>schemas.py\<close> and the constraints their \<open>Field\<close> declarations
  state (a length range for strings, a value range for integers). FastAPI rejects a body
  that violates them before the route runs.
\<close>

definition len_between :: "nat \<Rightarrow> nat \<Rightarrow> string \<Rightarrow> bool" where
  "len_between lo hi s \<longleftrightarrow> lo \<le> length s \<and> length s \<le> hi"

record asset_create =
  ac_external_id :: string
  ac_name :: string
  ac_group :: string

definition valid_asset_create :: "asset_create \<Rightarrow> bool" where
  "valid_asset_create p \<longleftrightarrow>
     len_between 3 80 (ac_external_id p) \<and> len_between 3 120 (ac_name p) \<and>
     len_between 2 80 (ac_group p)"

record rule_create =
  rc_name :: string
  rc_category :: string
  rc_minimum_severity :: int
  rc_cooldown_minutes :: int
  rc_action_type :: string
  rc_enabled :: bool

definition valid_rule_create :: "rule_create \<Rightarrow> bool" where
  "valid_rule_create p \<longleftrightarrow>
     len_between 3 120 (rc_name p) \<and> len_between 2 80 (rc_category p) \<and>
     1 \<le> rc_minimum_severity p \<and> rc_minimum_severity p \<le> 100 \<and>
     0 \<le> rc_cooldown_minutes p \<and> rc_cooldown_minutes p \<le> 1440 \<and>
     len_between 3 80 (rc_action_type p)"

record event_create =
  ec_asset_external_id :: string
  ec_source :: string
  ec_category :: string
  ec_severity :: int
  ec_message :: string
  ec_executor_mode :: string
  ec_idempotency_key :: "string option"
  ec_correlation_id :: "string option"

definition valid_event_create :: "event_create \<Rightarrow> bool" where
  "valid_event_create p \<longleftrightarrow>
     len_between 3 80 (ec_asset_external_id p) \<and> len_between 3 120 (ec_source p) \<and>
     len_between 2 80 (ec_category p) \<and> 1 \<le> ec_severity p \<and> ec_severity p \<le> 100 \<and>
     5 \<le> length (ec_message p) \<and> len_between 3 40 (ec_executor_mode p) \<and>
     pred_option (len_between 8 120) (ec_idempotency_key p) \<and>
     pred_option (len_between 3 80) (ec_correlation_id p)"

record check_create =
  cc_name :: string
  cc_asset_external_id :: string
  cc_detail :: string

definition valid_check_create :: "check_create \<Rightarrow> bool" where
  "valid_check_create p \<longleftrightarrow>
     len_between 3 120 (cc_name p) \<and> len_between 3 80 (cc_asset_external_id p) \<and>
     length (cc_detail p) \<le> 500"

record check_transition =
  ct_target_state :: string
  ct_detail :: string
  ct_timeout_seconds :: "int option"

definition valid_check_transition :: "check_transition \<Rightarrow> bool" where
  "valid_check_transition p \<longleftrightarrow>
     len_between 3 40 (ct_target_state p) \<and> length (ct_detail p) \<le> 500 \<and>
     pred_option (\<lambda>t. 1 \<le> t \<and> t \<le> 86400) (ct_timeout_seconds p)"

text \<open>
  A key that passed validation is never the empty string, so the processor's truth test
  on it only distinguishes a given key from none.
\<close>

lemma valid_key_truthy:
  "valid_event_create p \<Longrightarrow> truthy (ec_idempotency_key p) \<longleftrightarrow> ec_idempotency_key p \<noteq> None"
  by (auto simp: valid_event_create_def len_between_def truthy_def split: option.splits)

section \<open>Responses\<close>

text \<open>The \<open>Read\<close> models: what of a row goes into a response (\<open>from_attributes\<close>).\<close>

record asset_read = asset_create +
  ar_id :: int
  ar_status :: string

definition asset_read_of :: "asset \<Rightarrow> asset_read" where
  "asset_read_of a =
     \<lparr>ac_external_id = asset_external_id a, ac_name = asset_name a, ac_group = asset_group a,
      ar_id = asset_id a, ar_status = asset_status a\<rparr>"

record rule_read = rule_create +
  rr_id :: int

definition rule_read_of :: "automation_rule \<Rightarrow> rule_read" where
  "rule_read_of r =
     \<lparr>rc_name = rule_name r, rc_category = rule_category r,
      rc_minimum_severity = rule_minimum_severity r, rc_cooldown_minutes = rule_cooldown_minutes r,
      rc_action_type = rule_action_type r, rc_enabled = rule_enabled r, rr_id = rule_id r\<rparr>"

record event_read =
  er_id :: int
  er_source :: string
  er_category :: string
  er_severity :: int
  er_message :: string
  er_created_at :: instant

definition event_read_of :: "operational_event \<Rightarrow> event_read" where
  "event_read_of e =
     \<lparr>er_id = event_id e, er_source = event_source e, er_category = event_category e,
      er_severity = event_severity e, er_message = event_message e, er_created_at = event_created_at e\<rparr>"

record incident_read =
  ir_id :: int
  ir_asset_id :: int
  ir_rule_id :: int
  ir_event_id :: int
  ir_state :: string
  ir_summary :: string
  ir_created_at :: instant

definition incident_read_of :: "incident \<Rightarrow> incident_read" where
  "incident_read_of i =
     \<lparr>ir_id = incident_id i, ir_asset_id = incident_asset_id i, ir_rule_id = incident_rule_id i,
      ir_event_id = incident_event_id i, ir_state = incident_state i, ir_summary = incident_summary i,
      ir_created_at = incident_created_at i\<rparr>"

record action_read =
  tr_id :: int
  tr_incident_id :: int
  tr_action_type :: string
  tr_state :: string
  tr_attempts :: int
  tr_detail :: string

definition action_read_of :: "action \<Rightarrow> action_read" where
  "action_read_of a =
     \<lparr>tr_id = action_id a, tr_incident_id = action_incident_id a, tr_action_type = action_action_type a,
      tr_state = action_state a, tr_attempts = action_attempts a, tr_detail = action_detail a\<rparr>"

record process_response =
  pr_event :: event_read
  pr_incident :: "incident_read option"
  pr_action :: "action_read option"
  pr_skipped_reason :: "string option"
  pr_idempotency_key :: "string option"
  pr_idempotent_replay :: bool

record job_result =
  jr_job_name :: string
  jr_status :: string
  jr_actions_created :: int

record check_read =
  cr_id :: int
  cr_name :: string
  cr_asset_external_id :: string
  cr_state :: string
  cr_detail :: string
  cr_confirmation_due_at :: "instant option"
  cr_created_at :: instant
  cr_updated_at :: instant

definition check_read_of :: "check_run \<Rightarrow> check_read" where
  "check_read_of c =
     \<lparr>cr_id = check_id c, cr_name = check_name c, cr_asset_external_id = check_asset_external_id c,
      cr_state = check_state c, cr_detail = check_detail c,
      cr_confirmation_due_at = check_confirmation_due_at c, cr_created_at = check_created_at c,
      cr_updated_at = check_updated_at c\<rparr>"

end
