(* ===== verification/Integrity.thy ===== *)
theory Integrity
  imports Session
begin

text \<open>
  The database invariant every service keeps: primary keys are unique and positive, the
  unique constraints of \<open>models.py\<close> hold, every foreign key has its row, every stored
  state is the value of an enumeration member, and the rows tell one consistent story
  (an incident is about the asset of its event and was opened by an enabled rule that
  matches the event; an idempotency record points to rows that belong together). Each
  primitive of the session keeps it.
\<close>

section \<open>The invariant, table by table\<close>

definition assets_ok :: "asset list \<Rightarrow> bool" where
  "assets_ok as \<longleftrightarrow> distinct (map asset_id as) \<and> distinct (map asset_external_id as)"

definition rules_ok :: "automation_rule list \<Rightarrow> bool" where
  "rules_ok rs \<longleftrightarrow> distinct (map rule_id rs) \<and> distinct (map (\<lambda>r. (rule_name r, rule_category r)) rs)"

definition events_ok :: "asset list \<Rightarrow> operational_event list \<Rightarrow> bool" where
  "events_ok as es \<longleftrightarrow> distinct (map event_id es) \<and>
     (\<forall>e \<in> set es. event_asset_id e \<in> asset_id ` set as)"

definition rule_justifies :: "automation_rule \<Rightarrow> operational_event \<Rightarrow> bool" where
  "rule_justifies r e \<longleftrightarrow>
     rule_enabled r \<and> rule_category r = event_category e \<and>
     rule_minimum_severity r \<le> event_severity e"

definition incident_justified ::
  "automation_rule list \<Rightarrow> operational_event list \<Rightarrow> incident \<Rightarrow> bool" where
  "incident_justified rs es i \<longleftrightarrow>
     (\<exists>r \<in> set rs. \<exists>e \<in> set es. rule_id r = incident_rule_id i \<and>
        event_id e = incident_event_id i \<and> event_asset_id e = incident_asset_id i \<and>
        rule_justifies r e)"

definition incidents_ok ::
  "automation_rule list \<Rightarrow> operational_event list \<Rightarrow> incident list \<Rightarrow> bool" where
  "incidents_ok rs es is \<longleftrightarrow> distinct (map incident_id is) \<and>
     (\<forall>i \<in> set is. 0 < incident_id i \<and> incident_state i \<in> range incident_state_value \<and>
        incident_justified rs es i)"

definition actions_ok :: "incident list \<Rightarrow> action list \<Rightarrow> bool" where
  "actions_ok is acs \<longleftrightarrow> distinct (map action_id acs) \<and>
     (\<forall>a \<in> set acs. 0 < action_id a \<and> 0 \<le> action_attempts a \<and>
        action_state a \<in> range action_state_value \<and>
        action_incident_id a \<in> incident_id ` set is)"

definition idem_linked ::
  "operational_event list \<Rightarrow> incident list \<Rightarrow> action list \<Rightarrow> idempotency_record \<Rightarrow> bool" where
  "idem_linked es is acs r \<longleftrightarrow>
     (\<forall>k. idem_event_id r = Some k \<longrightarrow> k \<in> event_id ` set es) \<and>
     (\<forall>k. idem_incident_id r = Some k \<longrightarrow>
        (\<exists>i \<in> set is. incident_id i = k \<and> idem_event_id r = Some (incident_event_id i))) \<and>
     (\<forall>k. idem_action_id r = Some k \<longrightarrow>
        (\<exists>a \<in> set acs. action_id a = k \<and> idem_incident_id r = Some (action_incident_id a)))"

definition idems_ok ::
  "operational_event list \<Rightarrow> incident list \<Rightarrow> action list \<Rightarrow> idempotency_record list \<Rightarrow> bool" where
  "idems_ok es is acs ids \<longleftrightarrow> distinct (map idem_id ids) \<and> distinct (map idem_key ids) \<and>
     (\<forall>r \<in> set ids. 0 \<le> idem_hits r \<and> idem_linked es is acs r)"

definition audits_ok :: "audit_log list \<Rightarrow> bool" where
  "audits_ok ls \<longleftrightarrow> distinct (map audit_id ls)"

definition jobs_ok :: "job_run list \<Rightarrow> bool" where
  "jobs_ok js \<longleftrightarrow> distinct (map job_id js)"

definition checks_ok :: "check_run list \<Rightarrow> bool" where
  "checks_ok cs \<longleftrightarrow> distinct (map check_id cs) \<and>
     (\<forall>c \<in> set cs. check_state c \<in> range check_state_value)"

definition wf_db :: "database \<Rightarrow> bool" where
  "wf_db d \<longleftrightarrow> assets_ok (assets d) \<and> rules_ok (rules d) \<and> events_ok (assets d) (events d) \<and>
     incidents_ok (rules d) (events d) (incidents d) \<and> actions_ok (incidents d) (actions d) \<and>
     idems_ok (events d) (incidents d) (actions d) (idems d) \<and> audits_ok (audits d) \<and>
     jobs_ok (jobs d) \<and> checks_ok (checks d)"

abbreviation wf :: "world \<Rightarrow> bool" where
  "wf w \<equiv> wf_db (db w)"

lemmas table_ok_defs =
  assets_ok_def rules_ok_def events_ok_def incidents_ok_def actions_ok_def idems_ok_def
  audits_ok_def jobs_ok_def checks_ok_def

lemma wf_empty: "wf_db empty_database"
  by (simp add: wf_db_def table_ok_defs)

section \<open>Tables only grow: what still holds after a row is added elsewhere\<close>

lemma events_ok_more_assets: "events_ok as es \<Longrightarrow> events_ok (as @ xs) es"
  by (auto simp: events_ok_def)

lemma justified_mono:
  "incident_justified rs es i \<Longrightarrow> incident_justified (rs @ xs) (es @ ys) i"
  unfolding incident_justified_def by auto

lemma incidents_ok_more_rules: "incidents_ok rs es is \<Longrightarrow> incidents_ok (rs @ xs) es is"
  using justified_mono [of rs es _ xs "[]"] by (auto simp: incidents_ok_def)

lemma incidents_ok_more_events: "incidents_ok rs es is \<Longrightarrow> incidents_ok rs (es @ xs) is"
  using justified_mono [of rs es _ "[]" xs] by (auto simp: incidents_ok_def)

lemma actions_ok_more_incidents: "actions_ok is acs \<Longrightarrow> actions_ok (is @ xs) acs"
  by (auto simp: actions_ok_def)

lemma idem_linked_mono:
  "idem_linked es is acs r \<Longrightarrow> idem_linked (es @ xs) (is @ ys) (acs @ zs) r"
  unfolding idem_linked_def by auto

lemma idems_ok_mono:
  "idems_ok es is acs ids \<Longrightarrow> idems_ok (es @ xs) (is @ ys) (acs @ zs) ids"
  by (auto simp: idems_ok_def intro: idem_linked_mono)

lemmas idems_ok_more =
  idems_ok_mono [where ys = "[]" and zs = "[]", simplified]
  idems_ok_mono [where xs = "[]" and zs = "[]", simplified]
  idems_ok_mono [where xs = "[]" and ys = "[]", simplified]

section \<open>Every primitive keeps the invariant\<close>

lemma wf_add_event [wf_intros]:
  assumes "ids_ok E" "wf w" "aid \<in> asset_id ` set (assets (db w))"
  shows "wf (snd (add_event E aid src cat sev msg corr w))"
  using assms ids_okD(1) [OF assms(1), of "map event_id (events (db w))"]
    incidents_ok_more_events idems_ok_more(1)
  by (auto simp: wf_db_def add_event_def Let_def events_ok_def)

lemma wf_add_incident [wf_intros]:
  assumes "ids_ok E" "wf w"
    and "r \<in> set (rules (db w))" "e \<in> set (events (db w))" "rule_justifies r e"
  shows "wf (snd (add_incident E (event_asset_id e) (rule_id r) (event_id e)
    (incident_state_value st) summary w))"
proof -
  have "incident_justified (rules (db w)) (events (db w)) i"
    if "incident_rule_id i = rule_id r" "incident_event_id i = event_id e"
      "incident_asset_id i = event_asset_id e" for i
    using that assms unfolding incident_justified_def by auto
  then show ?thesis
    using assms(2) ids_okD [OF assms(1), of "map incident_id (incidents (db w))"]
      actions_ok_more_incidents idems_ok_more(2)
    by (auto simp: wf_db_def add_incident_def Let_def incidents_ok_def)
qed

lemma wf_add_action [wf_intros]:
  assumes "ids_ok E" "wf w" "iid \<in> incident_id ` set (incidents (db w))"
  shows "wf (snd (add_action E iid ty detail next_at w))"
  using assms ids_okD [OF assms(1), of "map action_id (actions (db w))"] idems_ok_more(3)
  by (auto simp: wf_db_def add_action_def Let_def actions_ok_def)

lemma wf_add_audit [wf_intros]:
  assumes "ids_ok E" "wf w"
  shows "wf (add_audit E et en ei msg w)"
  using assms ids_okD(1) [OF assms(1), of "map audit_id (audits (db w))"]
  by (auto simp: wf_db_def add_audit_def audits_ok_def)

lemma wf_add_job [wf_intros]:
  assumes "ids_ok E" "wf w"
  shows "wf (add_job E name status detail finished w)"
  using assms ids_okD(1) [OF assms(1), of "map job_id (jobs (db w))"]
  by (auto simp: wf_db_def add_job_def jobs_ok_def)

lemma wf_add_check [wf_intros]:
  assumes "ids_ok E" "wf w"
  shows "wf (snd (add_check E name aext detail now w))"
  using assms ids_okD(1) [OF assms(1), of "map check_id (checks (db w))"]
  by (auto simp: wf_db_def add_check_def Let_def checks_ok_def)

lemma wf_add_asset [wf_intros]:
  assumes "ids_ok E" "wf w"
  shows "wf (snd (add_asset E ext name grp status w))"
  using assms ids_okD(1) [OF assms(1), of "map asset_id (assets (db w))"] events_ok_more_assets
  by (auto simp: wf_db_def add_asset_def Let_def assets_ok_def)

lemma wf_add_rule [wf_intros]:
  assumes "ids_ok E" "wf w"
  shows "wf (snd (add_rule E name cat minsev cooldown ty enabled w))"
  using assms ids_okD(1) [OF assms(1), of "map rule_id (rules (db w))"] incidents_ok_more_rules
  by (auto simp: wf_db_def add_rule_def Let_def rules_ok_def)

lemma wf_add_idem [wf_intros]:
  assumes "ids_ok E" "wf w"
  shows "wf (snd (add_idem E k w))"
  using assms ids_okD(1) [OF assms(1), of "map idem_id (idems (db w))"]
  by (auto simp: wf_db_def add_idem_def Let_def idems_ok_def idem_linked_def)

lemma wf_put_asset [wf_intros]:
  assumes "wf w" "find_row asset_id (asset_id a) (assets (db w)) = Some old"
    "asset_external_id a = asset_external_id old"
  shows "wf (put_asset a w)"
proof -
  have "map asset_external_id (put_row asset_id a (assets (db w))) = map asset_external_id (assets (db w))"
    using assms find_row_unique [of asset_id "assets (db w)"]
    by (intro map_other_put_row) (force simp: wf_db_def assets_ok_def)
  then show ?thesis
    using assms(1) by (auto simp: wf_db_def put_asset_def assets_ok_def events_ok_def)
qed

lemma idem_linked_put_action:
  assumes "distinct (map action_id acs)" "find_row action_id (action_id a) acs = Some old"
    "action_incident_id a = action_incident_id old" "idem_linked es ins acs r"
  shows "idem_linked es ins (put_row action_id a acs) r"
proof -
  have "\<exists>y \<in> set (put_row action_id a acs). action_id y = action_id x \<and>
      action_incident_id y = action_incident_id x" if "x \<in> set acs" for x
    using that assms(1,3) find_row_unique [OF assms(1) that] assms(2)
    by (cases "action_id x = action_id a") (auto simp: in_put_row_iff)
  then show ?thesis using assms(4) unfolding idem_linked_def by metis
qed

lemma wf_put_action [wf_intros]:
  assumes "wf w" "get_action w (action_id a) = Some old"
    "action_incident_id a = action_incident_id old" "0 \<le> action_attempts a"
    "action_state a \<in> range action_state_value"
  shows "wf (put_action a w)"
proof -
  have old: "old \<in> set (actions (db w))" "action_id old = action_id a"
    using assms(2) by (auto simp: get_action_def dest: find_row_SomeD)
  have acs: "actions_ok (incidents (db w)) (actions (db w))"
    using assms(1) by (simp add: wf_db_def)
  have "actions_ok (incidents (db w)) (put_row action_id a (actions (db w)))"
    using acs old assms(3-5) by (auto simp: actions_ok_def dest!: in_put_rowD)
  moreover have "idem_linked es ins (put_row action_id a (actions (db w))) r"
    if "idem_linked es ins (actions (db w)) r" for es ins r
    using idem_linked_put_action [OF _ _ assms(3) that] acs assms(2)
    by (simp add: actions_ok_def get_action_def)
  ultimately show ?thesis
    using assms(1) by (auto simp: wf_db_def put_action_def idems_ok_def)
qed

lemma wf_put_idem [wf_intros]:
  assumes "wf w" "find_row idem_id (idem_id r) (idems (db w)) = Some old" "idem_key r = idem_key old"
    "0 \<le> idem_hits r" "idem_linked (events (db w)) (incidents (db w)) (actions (db w)) r"
  shows "wf (put_idem r w)"
proof -
  have "map idem_key (put_row idem_id r (idems (db w))) = map idem_key (idems (db w))"
    using assms find_row_unique [of idem_id "idems (db w)"]
    by (intro map_other_put_row) (force simp: wf_db_def idems_ok_def)
  then show ?thesis
    using assms by (auto simp: wf_db_def put_idem_def idems_ok_def dest!: in_put_rowD)
qed

lemma wf_put_check [wf_intros]:
  assumes "wf w" "check_state c \<in> range check_state_value"
  shows "wf (put_check c w)"
  using assms by (auto simp: wf_db_def put_check_def checks_ok_def dest!: in_put_rowD)

lemma wf_now [wf_intros]: "wf w \<Longrightarrow> wf (snd (now_or E n w))" "wf w \<Longrightarrow> wf (snd (now_utc E w))"
  by simp_all

section \<open>Worlds\<close>

text \<open>
  Both databases of a world are well formed, and whatever other sessions commit keeps a
  well-formed database well formed.
\<close>

definition world_ok :: "world \<Rightarrow> bool" where
  "world_ok w \<longleftrightarrow> wf_db (db w) \<and> wf_db (saved w)"

definition peers_ok :: "env \<Rightarrow> bool" where
  "peers_ok E \<longleftrightarrow> (\<forall>n d. wf_db d \<longrightarrow> wf_db (peers E n d))"

lemma demo_peers_ok [simp]: "peers_ok demo_env"
  by (simp add: peers_ok_def demo_env_def)

lemma world_ok_peer_commit: "peers_ok E \<Longrightarrow> world_ok w \<Longrightarrow> world_ok (peer_commit E w)"
  by (simp add: world_ok_def peer_commit_def peers_ok_def)

lemma world_ok_rollback: "world_ok w \<Longrightarrow> world_ok (rollback w)"
  by (simp add: world_ok_def)

lemma world_ok_commit: "world_ok w \<Longrightarrow> world_ok (commit w)"
  by (simp add: world_ok_def)

end
