(* ===== verification/Rules.thy ===== *)
theory Rules
  imports Integrity
begin

text \<open>
  \<open>services/rules.py\<close>: the rule engine returns the enabled rule of the event's category
  with the highest threshold that the event's severity reaches. Which rule wins among
  rules with the same threshold is the SQL engine's choice.
\<close>

definition match :: "env \<Rightarrow> operational_event \<Rightarrow> world \<Rightarrow> automation_rule option" where
  "match E e w =
     (case sort_key (\<lambda>r. - rule_minimum_severity r)
             (filter (\<lambda>r. rule_enabled r \<and> rule_category r = event_category e \<and>
                          rule_minimum_severity r \<le> event_severity e)
                (scan_rules E (rules (db w)))) of
        [] \<Rightarrow> None
      | r # _ \<Rightarrow> Some r)"

lemma sort_key_hd_min:
  "sort_key f xs = x # ys \<Longrightarrow> y \<in> set xs \<Longrightarrow> f x \<le> f y"
  by (metis list.set_map list.simps(9) set_ConsD set_sort sorted_simps(2) sorted_sort_key image_eqI order_refl)

lemma first_sorted_None_iff:
  "(case sort_key f xs of [] \<Rightarrow> None | x # _ \<Rightarrow> Some x) = None \<longleftrightarrow> xs = []"
  by (cases xs) (auto split: list.splits dest: arg_cong [where f = length])

lemma match_SomeD:
  assumes "scans_ok E" "match E e w = Some r"
  shows "r \<in> set (rules (db w))" "rule_justifies r e"
    "\<And>q. q \<in> set (rules (db w)) \<Longrightarrow> rule_justifies q e \<Longrightarrow>
      rule_minimum_severity q \<le> rule_minimum_severity r"
proof -
  let ?sel = "filter (\<lambda>r. rule_enabled r \<and> rule_category r = event_category e \<and>
      rule_minimum_severity r \<le> event_severity e) (scan_rules E (rules (db w)))"
  obtain rest where sorted: "sort_key (\<lambda>r. - rule_minimum_severity r) ?sel = r # rest"
    using assms(2) by (auto simp: match_def split: list.splits)
  then have "r \<in> set ?sel" by (metis list.set_intros(1) set_sort)
  then show "r \<in> set (rules (db w))" "rule_justifies r e"
    by (auto simp: scan_sets [OF assms(1)] rule_justifies_def)
  show "rule_minimum_severity q \<le> rule_minimum_severity r"
    if "q \<in> set (rules (db w))" "rule_justifies q e" for q
    using sort_key_hd_min [OF sorted, of q] that
    by (simp add: scan_sets [OF assms(1)] rule_justifies_def)
qed

lemma match_None_iff:
  assumes "scans_ok E"
  shows "match E e w = None \<longleftrightarrow> (\<forall>r \<in> set (rules (db w)). \<not> rule_justifies r e)"
proof -
  let ?sel = "filter (\<lambda>r. rule_enabled r \<and> rule_category r = event_category e \<and>
      rule_minimum_severity r \<le> event_severity e) (scan_rules E (rules (db w)))"
  have "match E e w = None \<longleftrightarrow> ?sel = []"
    unfolding match_def by (rule first_sorted_None_iff)
  then show ?thesis
    by (auto simp: filter_empty_conv scan_sets [OF assms] rule_justifies_def)
qed

end
