(* ===== verification/Seed.thy ===== *)
theory Seed
  imports Integrity
begin

text \<open>
  \<open>seed.py\<close>: the demo data, three assets and two rules, added and committed once. The
  seeded database is also the concrete world at which the theorems of the development
  are applied.
\<close>

definition demo_assets :: "(string \<times> string \<times> string) list" where
  "demo_assets =
     [(''PUMP-101'', ''North pump controller'', ''water-treatment''),
      (''GATEWAY-7'', ''Warehouse telemetry gateway'', ''logistics''),
      (''SENSOR-44'', ''Cold room synthetic sensor'', ''facilities'')]"

definition demo_rules :: "(string \<times> string \<times> int \<times> int \<times> string) list" where
  "demo_rules =
     [(''Offline device triage'', ''offline'', 70, 20, ''create_ticket''),
      (''Battery warning escalation'', ''battery_low'', 80, 60, ''notify_owner'')]"

text \<open>
  \<open>add_all\<close> and \<open>commit\<close>: a failed flush (a rule of the same name and category exists)
  rolls the transaction back.
\<close>

definition seed_demo_data :: "env \<Rightarrow> world \<Rightarrow> unit outcome" where
  "seed_demo_data E w =
     (if assets (db w) \<noteq> [] then (Inr (), w)
      else case for_each (\<lambda>(ext, name, grp). add_asset E ext name grp ''unknown'') demo_assets w of
             (Inl e, w1) \<Rightarrow> (Inl e, rollback w1)
           | (Inr _, w1) \<Rightarrow>
               (case for_each (\<lambda>(name, cat, minsev, cooldown, ty).
                        add_rule E name cat minsev cooldown ty True) demo_rules w1 of
                  (Inl e, w2) \<Rightarrow> (Inl e, rollback w2)
                | (Inr _, w2) \<Rightarrow> (Inr (), commit w2)))"

lemma wf_for_each_seed:
  assumes "ids_ok E" "wf w"
  shows "wf (snd (for_each (\<lambda>(ext, name, grp). add_asset E ext name grp st) as w))"
    "wf (snd (for_each (\<lambda>(name, cat, minsev, cooldown, ty). add_rule E name cat minsev cooldown ty b) rs w))"
  using assms by (auto intro!: for_each_invariant [where P = wf] wf_add_asset wf_add_rule)

lemma saved_for_each_seed:
  "saved (snd (for_each (\<lambda>(ext, name, grp). add_asset E ext name grp st) as w)) = saved w"
  "saved (snd (for_each (\<lambda>(name, cat, minsev, cooldown, ty). add_rule E name cat minsev cooldown ty b) rs w)) = saved w"
  by (auto intro!: for_each_invariant [where P = "\<lambda>v. saved v = saved w"])

lemma world_ok_seed:
  assumes "ids_ok E" "world_ok w"
  shows "world_ok (snd (seed_demo_data E w))"
proof -
  obtain x w1 where l1: "for_each (\<lambda>(ext, name, grp). add_asset E ext name grp ''unknown'') demo_assets w = (x, w1)"
    by fastforce
  obtain y w2 where l2: "for_each (\<lambda>(name, cat, minsev, cooldown, ty).
      add_rule E name cat minsev cooldown ty True) demo_rules w1 = (y, w2)"
    by fastforce
  have w1: "wf w1" "saved w1 = saved w"
    using wf_for_each_seed(1) [OF assms(1)] saved_for_each_seed(1) l1 assms(2)
    by (metis snd_conv world_ok_def)+
  then have "wf w2" "saved w2 = saved w"
    using wf_for_each_seed(2) [OF assms(1)] saved_for_each_seed(2) l2 by (metis snd_conv)+
  then show ?thesis
    using l1 l2 w1 assms(2)
    by (auto simp: seed_demo_data_def world_ok_def split: sum.split)
qed

section \<open>The seeded world\<close>

definition empty_world :: world where
  "empty_world = \<lparr>db = empty_database, saved = empty_database, reads = 0\<rparr>"

definition demo_world :: world where
  "demo_world = snd (seed_demo_data demo_env empty_world)"

lemma world_ok_empty [simp]: "world_ok empty_world"
  by (simp add: world_ok_def empty_world_def wf_empty)

lemma world_ok_demo [simp]: "world_ok demo_world"
  unfolding demo_world_def by (simp add: world_ok_seed)

lemma demo_world_let:
  "demo_world = (let d = empty_database
     \<lparr>assets := [\<lparr>asset_id = 1, asset_external_id = ''PUMP-101'',
          asset_name = ''North pump controller'', asset_group = ''water-treatment'',
          asset_status = ''unknown''\<rparr>,
        \<lparr>asset_id = 2, asset_external_id = ''GATEWAY-7'',
          asset_name = ''Warehouse telemetry gateway'', asset_group = ''logistics'',
          asset_status = ''unknown''\<rparr>,
        \<lparr>asset_id = 3, asset_external_id = ''SENSOR-44'',
          asset_name = ''Cold room synthetic sensor'', asset_group = ''facilities'',
          asset_status = ''unknown''\<rparr>],
      rules := [\<lparr>rule_id = 1, rule_name = ''Offline device triage'', rule_category = ''offline'',
          rule_minimum_severity = 70, rule_cooldown_minutes = 20,
          rule_action_type = ''create_ticket'', rule_enabled = True\<rparr>,
        \<lparr>rule_id = 2, rule_name = ''Battery warning escalation'', rule_category = ''battery_low'',
          rule_minimum_severity = 80, rule_cooldown_minutes = 60,
          rule_action_type = ''notify_owner'', rule_enabled = True\<rparr>]\<rparr>
   in \<lparr>db = d, saved = d, reads = 0\<rparr>)"
  by (simp add: demo_world_def seed_demo_data_def empty_world_def demo_assets_def demo_rules_def
      add_asset_def add_rule_def demo_env_def sqlite_new_id_def commit_def Let_def empty_database_def)

lemmas demo_world_eq = demo_world_let [unfolded Let_def]

lemma demo_world_tables [simp]:
  "events (db demo_world) = []" "incidents (db demo_world) = []" "actions (db demo_world) = []"
  "audits (db demo_world) = []" "idems (db demo_world) = []" "jobs (db demo_world) = []"
  "checks (db demo_world) = []" "saved demo_world = db demo_world" "reads demo_world = 0"
  by (simp_all add: demo_world_eq)

section \<open>What seeding stores\<close>

text \<open>
  Seeding a database without assets, whose rules do not have the name and category of a demo
  rule, succeeds: it stores exactly the demo assets and rules, adds nothing else, and
  commits; seeding again changes nothing.
\<close>

lemma seed_stores_demo_data:
  assumes "assets (db w) = []"
    and "(''Offline device triage'', ''offline'') \<notin> (\<lambda>r. (rule_name r, rule_category r)) ` set (rules (db w))"
    and "(''Battery warning escalation'', ''battery_low'') \<notin> (\<lambda>r. (rule_name r, rule_category r)) ` set (rules (db w))"
  shows "\<exists>w'. seed_demo_data E w = (Inr (), w') \<and> seed_demo_data E w' = (Inr (), w') \<and> saved w' = db w' \<and>
    map (\<lambda>a. (asset_external_id a, asset_name a, asset_group a, asset_status a)) (assets (db w')) =
      [(''PUMP-101'', ''North pump controller'', ''water-treatment'', ''unknown''),
       (''GATEWAY-7'', ''Warehouse telemetry gateway'', ''logistics'', ''unknown''),
       (''SENSOR-44'', ''Cold room synthetic sensor'', ''facilities'', ''unknown'')] \<and>
    (\<exists>r s. rules (db w') = rules (db w) @ [r, s] \<and>
       rule_name r = ''Offline device triage'' \<and> rule_category r = ''offline'' \<and> rule_minimum_severity r = 70 \<and>
       rule_cooldown_minutes r = 20 \<and> rule_action_type r = ''create_ticket'' \<and> rule_enabled r \<and>
       rule_name s = ''Battery warning escalation'' \<and> rule_category s = ''battery_low'' \<and> rule_minimum_severity s = 80 \<and>
       rule_cooldown_minutes s = 60 \<and> rule_action_type s = ''notify_owner'' \<and> rule_enabled s) \<and>
    events (db w') = events (db w) \<and> incidents (db w') = incidents (db w) \<and> actions (db w') = actions (db w)"
  using assms
  by (simp add: seed_demo_data_def demo_assets_def demo_rules_def add_asset_def add_rule_def Let_def commit_def)

end
