(* ===== verification/Processor.thy ===== *)
theory Processor
  imports Schemas Rules Seed
begin

text \<open>
  \<open>services/processor.py\<close>: an event is recorded, matched against the rules, suppressed by
  a cooldown, or turned into an incident and, unless the queue is full, a queued action.
  With an idempotency key the first processing stores its result under the key and
  every later one replays it.
\<close>

section \<open>The operations\<close>

type_synonym processed = "operational_event \<times> incident option \<times> action option \<times> string option"
type_synonym process_result =
  "operational_event \<times> incident option \<times> action option \<times> string option \<times> bool"

definition in_cooldown :: "env \<Rightarrow> asset \<Rightarrow> int \<Rightarrow> world \<Rightarrow> bool \<times> world" where
  "in_cooldown E a cooldown_minutes w =
     (if cooldown_minutes \<le> 0 then (False, w)
      else let (now, w1) = now_utc E w; threshold = now - minutes cooldown_minutes
           in (list_ex (\<lambda>i. incident_asset_id i = asset_id a \<and> threshold \<le> incident_created_at i \<and>
                            incident_state i \<noteq> incident_state_value IncidentState_RESOLVED)
                 (incidents (db w1)), w1))"

definition in_backlog :: "action \<Rightarrow> bool" where
  "in_backlog a \<longleftrightarrow>
     action_state a \<in> {action_state_value ActionState_QUEUED, action_state_value ActionState_RETRY}"

definition queue_backlog :: "database \<Rightarrow> int" where
  "queue_backlog d = int (length (filter in_backlog (actions d)))"

definition correlation_id_or_new :: "env \<Rightarrow> event_create \<Rightarrow> world \<Rightarrow> string \<times> world" where
  "correlation_id_or_new E p w =
     (case ec_correlation_id p of
        Some c \<Rightarrow> if c \<noteq> [] then (c, w) else (let (u, w1) = uuid4_hex E w in (''corr-'' @ u, w1))
      | None \<Rightarrow> (let (u, w1) = uuid4_hex E w in (''corr-'' @ u, w1)))"

text \<open>
  \<open>_process_new\<close> in three parts: the event is recorded and becomes the asset's status;
  after the cooldown test an incident is opened; and the whole.
\<close>

definition record_event ::
  "env \<Rightarrow> event_create \<Rightarrow> asset \<Rightarrow> world \<Rightarrow> operational_event \<times> world" where
  "record_event E p asset w =
     (let (corr, w1) = correlation_id_or_new E p w
      in add_event E (asset_id asset) (ec_source p) (ec_category p) (ec_severity p)
           (ec_message p) corr (put_asset (asset\<lparr>asset_status := ec_category p\<rparr>) w1))"

definition open_incident ::
  "env \<Rightarrow> event_create \<Rightarrow> asset \<Rightarrow> automation_rule \<Rightarrow> operational_event \<Rightarrow> world \<Rightarrow> processed \<times> world" where
  "open_incident E p asset rule event w =
     (let (incident, w1) = add_incident E (asset_id asset) (rule_id rule) (event_id event)
            (incident_state_value IncidentState_OPEN)
            (rule_name rule @ '': '' @ asset_external_id asset @ '' reported '' @ event_category event) w
      in if rule_action_type rule \<noteq> ''none''
         then if max_queue_backlog (cfg E) \<le> queue_backlog (db w1)
              then ((event, Some incident, None, Some ''queue_backpressure''),
                    add_audit E ''queue_backpressure'' ''incident'' (incident_id incident)
                      ''Queue backlog limit rejected action'' w1)
              else let (now, w2) = now_utc E w1;
                       (action, w3) = add_action E (incident_id incident) (rule_action_type rule)
                         (ec_executor_mode p) (Some now) w2
                   in ((event, Some incident, Some action, None),
                       add_audit E ''incident_created'' ''incident'' (incident_id incident)
                         (incident_summary incident) w3)
         else ((event, Some incident, None, None),
               add_audit E ''incident_created'' ''incident'' (incident_id incident)
                 (incident_summary incident) w1))"

definition process_new :: "env \<Rightarrow> event_create \<Rightarrow> world \<Rightarrow> processed outcome" where
  "process_new E p w =
     (case find_asset (ec_asset_external_id p) w of
        None \<Rightarrow> (Inl (UnknownAssetError (ec_asset_external_id p)), w)
      | Some asset \<Rightarrow>
          let (event, w3) = record_event E p asset w
          in case match E event w3 of
               None \<Rightarrow>
                 (Inr (event, None, None, Some ''no_matching_rule''),
                  add_audit E ''event_recorded'' ''operational_event'' (event_id event)
                    ''No rule matched event'' w3)
             | Some rule \<Rightarrow>
                 let (cooling, w4) = in_cooldown E asset (rule_cooldown_minutes rule) w3
                 in if cooling
                    then (Inr (event, None, None, Some ''cooldown''),
                          add_audit E ''event_suppressed'' ''operational_event'' (event_id event)
                            ''Cooldown suppressed action'' w4)
                    else (let (r, w5) = open_incident E p asset rule event w4 in (Inr r, w5)))"

definition replay_idempotent_record ::
  "env \<Rightarrow> idempotency_record \<Rightarrow> world \<Rightarrow> process_result outcome" where
  "replay_idempotent_record E r w =
     (let (now, w1) = now_utc E w;
          w2 = put_idem (r\<lparr>idem_hits := idem_hits r + 1, idem_updated_at := now\<rparr>) w1;
          w3 = add_audit E ''idempotency_hit'' ''idempotency_record'' (idem_id r)
                 ''Reused idempotent event result'' w2
      in case Option.bind (idem_event_id r) (get_event w3) of
           None \<Rightarrow> (Inl (RuntimeError ''idempotency record points to a missing event''), w3)
         | Some event \<Rightarrow>
             (Inr (event,
                   (case idem_incident_id r of
                      Some k \<Rightarrow> if k \<noteq> 0 then get_incident w3 k else None | None \<Rightarrow> None),
                   (case idem_action_id r of
                      Some k \<Rightarrow> if k \<noteq> 0 then get_action w3 k else None | None \<Rightarrow> None),
                   idem_skipped_reason r, True), w3))"

text \<open>
  The polling loop: \<open>attempts\<close> is the number of tries left. Between two tries the
  session sleeps and other sessions may commit.
\<close>

fun wait_for_idempotent_result :: "env \<Rightarrow> string \<Rightarrow> nat \<Rightarrow> world \<Rightarrow> process_result outcome" where
  "wait_for_idempotent_result E key 0 w =
     (Inl (TimeoutError ''idempotent result was not committed before timeout''), w)"
| "wait_for_idempotent_result E key (Suc attempts) w =
     (case find_idem key w of
        Some r \<Rightarrow>
          if idem_event_id r \<noteq> None then replay_idempotent_record E r w
          else wait_for_idempotent_result E key attempts (peer_commit E w)
      | None \<Rightarrow> wait_for_idempotent_result E key attempts (peer_commit E w))"

text \<open>
  The nested transaction that inserts the record fails when the key is taken: by a record
  without a result, or by one that another session committed after this one looked. When
  it succeeds, its end may commit the record, still without a result
  (\<open>release_savepoint\<close>); what follows is in the session's own transaction.
\<close>

definition process_with_idempotency ::
  "env \<Rightarrow> string \<Rightarrow> event_create \<Rightarrow> world \<Rightarrow> process_result outcome" where
  "process_with_idempotency E key p w =
     (if \<exists>r \<in> set_option (find_idem key w). idem_event_id r \<noteq> None
      then replay_idempotent_record E (the (find_idem key w)) w
      else case add_idem E key (peer_commit E w) of
             (Inl _, w1) \<Rightarrow> wait_for_idempotent_result E key 100 (rollback w1)
           | (Inr r, w1) \<Rightarrow>
               (case process_new E p (release_savepoint (peer_commit E w) w1) of
                  (Inl e, w2) \<Rightarrow> (Inl e, w2)
                | (Inr (event, incident, action, skipped), w2) \<Rightarrow>
                    let (now, w3) = now_utc E w2
                    in (Inr (event, incident, action, skipped, False),
                        put_idem (r\<lparr>idem_event_id := Some (event_id event),
                                    idem_incident_id := map_option incident_id incident,
                                    idem_action_id := map_option action_id action,
                                    idem_skipped_reason := skipped,
                                    idem_updated_at := now\<rparr>) w3)))"

definition process :: "env \<Rightarrow> event_create \<Rightarrow> world \<Rightarrow> process_result outcome" where
  "process E p w =
     (if truthy (ec_idempotency_key p)
      then process_with_idempotency E (the (ec_idempotency_key p)) p w
      else case process_new E p w of
             (Inl e, w1) \<Rightarrow> (Inl e, w1)
           | (Inr (event, incident, action, skipped), w1) \<Rightarrow>
               (Inr (event, incident, action, skipped, False), w1))"

section \<open>What each operation leaves unchanged\<close>

lemma in_cooldown_frame [simp]:
  "db (snd (in_cooldown E a m w)) = db w" "saved (snd (in_cooldown E a m w)) = saved w"
  by (simp_all add: in_cooldown_def Let_def split_beta)

lemma correlation_id_frame [simp]:
  "db (snd (correlation_id_or_new E p w)) = db w"
  "saved (snd (correlation_id_or_new E p w)) = saved w"
  by (simp_all add: correlation_id_or_new_def uuid4_hex_def split: option.split)

lemma record_event_frame [simp]:
  "saved (snd (record_event E p a w)) = saved w"
  "assets (db (snd (record_event E p a w))) =
     put_row asset_id (a\<lparr>asset_status := ec_category p\<rparr>) (assets (db w))"
  "rules (db (snd (record_event E p a w))) = rules (db w)"
  "events (db (snd (record_event E p a w))) = events (db w) @ [fst (record_event E p a w)]"
  "incidents (db (snd (record_event E p a w))) = incidents (db w)"
  "actions (db (snd (record_event E p a w))) = actions (db w)"
  "audits (db (snd (record_event E p a w))) = audits (db w)"
  "idems (db (snd (record_event E p a w))) = idems (db w)"
  "jobs (db (snd (record_event E p a w))) = jobs (db w)"
  "checks (db (snd (record_event E p a w))) = checks (db w)"
  by (simp_all add: record_event_def split_beta Let_def)

lemma record_event_row [simp]:
  "event_asset_id (fst (record_event E p a w)) = asset_id a"
  "event_source (fst (record_event E p a w)) = ec_source p"
  "event_category (fst (record_event E p a w)) = ec_category p"
  "event_severity (fst (record_event E p a w)) = ec_severity p"
  "event_message (fst (record_event E p a w)) = ec_message p"
  "event_id (fst (record_event E p a w)) = new_id E (map event_id (events (db w)))"
  by (simp_all add: record_event_def split_beta Let_def)

lemma open_incident_frame [simp]:
  "saved (snd (open_incident E p a r e w)) = saved w"
  "assets (db (snd (open_incident E p a r e w))) = assets (db w)"
  "rules (db (snd (open_incident E p a r e w))) = rules (db w)"
  "events (db (snd (open_incident E p a r e w))) = events (db w)"
  "idems (db (snd (open_incident E p a r e w))) = idems (db w)"
  "jobs (db (snd (open_incident E p a r e w))) = jobs (db w)"
  "checks (db (snd (open_incident E p a r e w))) = checks (db w)"
  by (simp_all add: open_incident_def Let_def split_beta)

lemma process_new_frame [simp]:
  "saved (snd (process_new E p w)) = saved w"
  "rules (db (snd (process_new E p w))) = rules (db w)"
  "idems (db (snd (process_new E p w))) = idems (db w)"
  "jobs (db (snd (process_new E p w))) = jobs (db w)"
  "checks (db (snd (process_new E p w))) = checks (db w)"
  by (simp_all add: process_new_def Let_def split_beta split: option.split)

section \<open>The invariant\<close>

lemma wf_record_event:
  assumes "ids_ok E" "wf w" "find_asset ext w = Some a"
  shows "wf (snd (record_event E p a w))"
proof -
  have a: "a \<in> set (assets (db w))" using assms(3) by (auto simp: find_asset_def dest: find_row_SomeD)
  then have "find_row asset_id (asset_id a) (assets (db w)) = Some a"
    using assms(2) by (intro find_row_unique) (auto simp: wf_db_def assets_ok_def)
  then have "wf (put_asset (a\<lparr>asset_status := ec_category p\<rparr>) (snd (correlation_id_or_new E p w)))"
    using assms(2) by (intro wf_put_asset) auto
  then show ?thesis
    using assms(1) a unfolding record_event_def
    by (auto simp: split_beta Let_def intro!: wf_add_event)
qed

lemma wf_open_incident:
  assumes "ids_ok E" "wf w" "r \<in> set (rules (db w))" "e \<in> set (events (db w))"
    "rule_justifies r e" "event_asset_id e = asset_id a"
  shows "wf (snd (open_incident E p a r e w))"
proof -
  let ?add = "add_incident E (asset_id a) (rule_id r) (event_id e)
    (incident_state_value IncidentState_OPEN)
    (rule_name r @ '': '' @ asset_external_id a @ '' reported '' @ event_category e) w"
  have "wf (snd ?add)"
    using wf_add_incident [OF assms(1-5)] assms(6) by metis
  then show ?thesis
    using assms(1) unfolding open_incident_def
    by (auto simp: Let_def split_beta intro!: wf_add_audit wf_add_action)
qed

lemma wf_process_new:
  assumes "ids_ok E" "scans_ok E" "wf w"
  shows "wf (snd (process_new E p w))"
proof (cases "find_asset (ec_asset_external_id p) w")
  case None
  then show ?thesis using assms(3) by (simp add: process_new_def)
next
  case (Some a)
  let ?w = "snd (record_event E p a w)" and ?e = "fst (record_event E p a w)"
  have w3: "wf ?w" by (rule wf_record_event [OF assms(1,3) Some])
  have "wf (snd (open_incident E p a r ?e (snd (in_cooldown E a m ?w))))"
    if "match E ?e ?w = Some r" for r m
    using match_SomeD [OF assms(2) that] assms(1) w3 by (intro wf_open_incident) auto
  then show ?thesis
    using Some assms(1) w3
    by (auto simp: process_new_def Let_def split_beta split: option.split intro!: wf_add_audit)
qed

text \<open>The rows a processing returns are stored and belong together.\<close>

definition linked_result :: "database \<Rightarrow> processed \<Rightarrow> bool" where
  "linked_result d r =
     (case r of (event, incident, action, skipped) \<Rightarrow>
        event \<in> set (events d) \<and>
        (\<forall>i. incident = Some i \<longrightarrow> i \<in> set (incidents d) \<and> incident_event_id i = event_id event) \<and>
        (\<forall>a. action = Some a \<longrightarrow> a \<in> set (actions d) \<and>
           (\<exists>i. incident = Some i \<and> action_incident_id a = incident_id i)))"

lemma process_new_linked:
  assumes "process_new E p w = (Inr r, w')"
  shows "linked_result (db w') r"
proof -
  have "case fst (process_new E p w) of Inl _ \<Rightarrow> True
      | Inr r \<Rightarrow> linked_result (db (snd (process_new E p w))) r"
    by (auto simp: process_new_def open_incident_def linked_result_def Let_def split_beta
        split: option.split)
  then show ?thesis using assms by simp
qed

lemma find_idemD:
  "find_idem k w = Some r \<Longrightarrow> r \<in> set (idems (db w)) \<and> idem_key r = k"
  by (auto simp: find_idem_def dest: find_row_SomeD)

lemma replay_frame [simp]:
  "saved (snd (replay_idempotent_record E r w)) = saved w"
  "assets (db (snd (replay_idempotent_record E r w))) = assets (db w)"
  "rules (db (snd (replay_idempotent_record E r w))) = rules (db w)"
  "events (db (snd (replay_idempotent_record E r w))) = events (db w)"
  "incidents (db (snd (replay_idempotent_record E r w))) = incidents (db w)"
  "actions (db (snd (replay_idempotent_record E r w))) = actions (db w)"
  "jobs (db (snd (replay_idempotent_record E r w))) = jobs (db w)"
  "checks (db (snd (replay_idempotent_record E r w))) = checks (db w)"
  by (simp_all add: replay_idempotent_record_def Let_def split_beta split: option.split)

lemma wf_replay:
  assumes "ids_ok E" "wf w" "r \<in> set (idems (db w))"
  shows "wf (snd (replay_idempotent_record E r w))"
proof -
  have idems: "idems_ok (events (db w)) (incidents (db w)) (actions (db w)) (idems (db w))"
    using assms(2) by (simp add: wf_db_def)
  then have "find_row idem_id (idem_id r) (idems (db w)) = Some r"
    using assms(3) by (intro find_row_unique) (simp_all add: idems_ok_def)
  moreover have "idem_linked es is' acs (r\<lparr>idem_hits := h, idem_updated_at := t\<rparr>) =
      idem_linked es is' acs r" for es is' acs h t
    by (simp add: idem_linked_def)
  moreover have "0 \<le> idem_hits r" "idem_linked (events (db w)) (incidents (db w)) (actions (db w)) r"
    using idems assms(3) by (simp_all add: idems_ok_def)
  ultimately have "wf (put_idem (r\<lparr>idem_hits := idem_hits r + 1, idem_updated_at := t\<rparr>)
      (snd (now_utc E w)))" for t
    using assms(2) by (intro wf_put_idem) simp_all
  then show ?thesis
    using assms(1)
    by (auto simp: replay_idempotent_record_def Let_def split_beta split: option.split
        intro!: wf_add_audit)
qed

lemma world_ok_replay:
  "ids_ok E \<Longrightarrow> world_ok w \<Longrightarrow> r \<in> set (idems (db w)) \<Longrightarrow>
   world_ok (snd (replay_idempotent_record E r w))"
  by (simp add: world_ok_def wf_replay)

lemma world_ok_wait:
  assumes "ids_ok E" "peers_ok E" "world_ok w"
  shows "world_ok (snd (wait_for_idempotent_result E k n w))"
  using assms(3)
proof (induction n arbitrary: w)
  case 0
  then show ?case by simp
next
  case (Suc n)
  then show ?case
    using assms(1,2)
    by (auto split: option.split dest: find_idemD intro: world_ok_replay world_ok_peer_commit)
qed

lemma linked_resultD:
  assumes "linked_result d (e, i, a, sk)"
  shows "e \<in> set (events d)" "i = Some x \<Longrightarrow> x \<in> set (incidents d)"
    "i = Some x \<Longrightarrow> incident_event_id x = event_id e" "a = Some y \<Longrightarrow> y \<in> set (actions d)"
    "a = Some y \<Longrightarrow> map_option incident_id i = Some (action_incident_id y)"
  using assms by (auto simp: linked_result_def)

lemma idem_linked_result:
  assumes "linked_result d (e, i, a, sk)"
  shows "idem_linked (events d) (incidents d) (actions d)
    (r\<lparr>idem_event_id := Some (event_id e), idem_incident_id := map_option incident_id i,
       idem_action_id := map_option action_id a, idem_skipped_reason := sk,
       idem_updated_at := t\<rparr>)"
  using linked_resultD [OF assms] unfolding idem_linked_def by (auto simp: map_option_case split: option.splits)

lemma wf_store_result:
  assumes "wf w" "linked_result (db w) (e, i, a, sk)" "r \<in> set (idems (db w))"
  shows "wf (put_idem (r\<lparr>idem_event_id := Some (event_id e),
      idem_incident_id := map_option incident_id i, idem_action_id := map_option action_id a,
      idem_skipped_reason := sk, idem_updated_at := t\<rparr>) w)"
proof -
  have "idems_ok (events (db w)) (incidents (db w)) (actions (db w)) (idems (db w))"
    using assms(1) by (simp add: wf_db_def)
  then have "find_row idem_id (idem_id r) (idems (db w)) = Some r" "0 \<le> idem_hits r"
    using assms(3) by (auto simp: idems_ok_def intro: find_row_unique)
  then show ?thesis
    using assms(1) idem_linked_result [OF assms(2)] by (intro wf_put_idem) simp_all
qed

lemma add_idem_InrD:
  "add_idem E k w = (Inr r, w') \<Longrightarrow>
   idems (db w') = idems (db w) @ [r] \<and> idem_key r = k \<and> idem_event_id r = None \<and> idem_hits r = 0 \<and>
   idem_id r = new_id E (map idem_id (idems (db w))) \<and> k \<notin> idem_key ` set (idems (db w))"
  by (auto simp: add_idem_def Let_def split: if_splits)

lemma add_idem_InlD:
  "add_idem E k w = (Inl x, w') \<Longrightarrow> w' = w \<and> k \<in> idem_key ` set (idems (db w))"
  by (auto simp: add_idem_def Let_def split: if_splits)

lemma world_ok_process_with_idempotency:
  assumes "ids_ok E" "scans_ok E" "peers_ok E" "world_ok w"
  shows "world_ok (snd (process_with_idempotency E k p w))"
proof (cases "\<exists>r \<in> set_option (find_idem k w). idem_event_id r \<noteq> None")
  case True
  then show ?thesis
    using assms(1,4) unfolding process_with_idempotency_def
    by (auto intro!: world_ok_replay dest: find_idemD)
next
  case False
  obtain x w1 where ins: "add_idem E k (peer_commit E w) = (x, w1)" by fastforce
  have w1: "world_ok w1"
    using wf_add_idem [of E "peer_commit E w" k] add_idem_frame [of E k "peer_commit E w"]
      world_ok_peer_commit [OF assms(3,4)] ins assms(1)
    by (simp add: world_ok_def)
  show ?thesis
  proof (cases x)
    case (Inl e)
    then show ?thesis
      using False ins w1 assms(1,3) unfolding process_with_idempotency_def
      by (auto intro: world_ok_wait world_ok_rollback)
  next
    case (Inr r)
    let ?v = "release_savepoint (peer_commit E w) w1"
    have v: "world_ok ?v" using w1 by (simp add: world_ok_def)
    obtain y w2 where new: "process_new E p ?v = (y, w2)" by fastforce
    have w2: "wf w2" "saved w2 = saved ?v" "idems (db w2) = idems (db w1)"
      using wf_process_new [OF assms(1,2), of ?v p] process_new_frame [of E p ?v] new v
      by (simp_all add: world_ok_def)
    have r: "r \<in> set (idems (db w2))"
      using add_idem_InrD [of E k "peer_commit E w" r w1] ins Inr w2(3) by simp
    show ?thesis
    proof (cases y)
      case (Inl e)
      then show ?thesis
        using False ins Inr new v w2 unfolding process_with_idempotency_def
        by (auto simp: world_ok_def)
    next
      case y: (Inr z)
      obtain e i a sk where z: "z = (e, i, a, sk)" by (cases z) auto
      have "linked_result (db w2) (e, i, a, sk)" using process_new_linked new y z by simp
      then have "wf (put_idem (r\<lparr>idem_event_id := Some (event_id e),
          idem_incident_id := map_option incident_id i, idem_action_id := map_option action_id a,
          idem_skipped_reason := sk, idem_updated_at := t\<rparr>) (snd (now_utc E w2)))" for t
        using w2 r by (intro wf_store_result) simp_all
      then show ?thesis
        using False ins Inr new y z v w2 unfolding process_with_idempotency_def
        by (auto simp: world_ok_def split_beta Let_def)
    qed
  qed
qed

lemma world_ok_process:
  assumes "ids_ok E" "scans_ok E" "peers_ok E" "world_ok w"
  shows "world_ok (snd (process E p w))"
  using world_ok_process_with_idempotency [OF assms] wf_process_new [OF assms(1,2)] assms(4)
    process_new_frame(1) [of E p w]
  by (auto simp: process_def world_ok_def split_beta split: sum.split prod.split)

section \<open>Which branch is taken\<close>

text \<open>An unresolved incident of the asset inside the window that ends at \<open>t\<close>.\<close>

definition recent_unresolved :: "database \<Rightarrow> int \<Rightarrow> int \<Rightarrow> instant \<Rightarrow> bool" where
  "recent_unresolved d aid cooldown_minutes t \<longleftrightarrow>
     (\<exists>i \<in> set (incidents d). incident_asset_id i = aid \<and>
        t - minutes cooldown_minutes \<le> incident_created_at i \<and>
        incident_state i \<noteq> incident_state_value IncidentState_RESOLVED)"

lemma in_cooldown_iff:
  "fst (in_cooldown E a m w) \<longleftrightarrow> 0 < m \<and> recent_unresolved (db w) (asset_id a) m (clock E (reads w))"
  by (auto simp: in_cooldown_def recent_unresolved_def Let_def split_beta list_ex_iff)

lemma process_new_unknown:
  "find_asset (ec_asset_external_id p) w = None \<Longrightarrow>
   process_new E p w = (Inl (UnknownAssetError (ec_asset_external_id p)), w)"
  by (simp add: process_new_def)

lemma process_new_no_rule:
  assumes "find_asset (ec_asset_external_id p) w = Some a" "record_event E p a w = (e, w1)"
    "match E e w1 = None"
  shows "process_new E p w = (Inr (e, None, None, Some ''no_matching_rule''),
    add_audit E ''event_recorded'' ''operational_event'' (event_id e) ''No rule matched event'' w1)"
  using assms by (simp add: process_new_def)

lemma process_new_suppressed:
  assumes "find_asset (ec_asset_external_id p) w = Some a" "record_event E p a w = (e, w1)"
    "match E e w1 = Some r" "fst (in_cooldown E a (rule_cooldown_minutes r) w1)"
  shows "process_new E p w = (Inr (e, None, None, Some ''cooldown''),
    add_audit E ''event_suppressed'' ''operational_event'' (event_id e) ''Cooldown suppressed action''
      (snd (in_cooldown E a (rule_cooldown_minutes r) w1)))"
  using assms by (simp add: process_new_def split_beta)

lemma process_new_opened:
  assumes "find_asset (ec_asset_external_id p) w = Some a" "record_event E p a w = (e, w1)"
    "match E e w1 = Some r" "\<not> fst (in_cooldown E a (rule_cooldown_minutes r) w1)"
  shows "process_new E p w =
    (Inr (fst (open_incident E p a r e (snd (in_cooldown E a (rule_cooldown_minutes r) w1)))),
     snd (open_incident E p a r e (snd (in_cooldown E a (rule_cooldown_minutes r) w1))))"
  using assms by (simp add: process_new_def split_beta)

lemma process_new_InlD: "fst (process_new E p w) = Inl x \<Longrightarrow> find_asset (ec_asset_external_id p) w = None"
  by (auto simp: process_new_def Let_def split_beta split: option.splits if_splits)

lemma process_new_total:
  "find_asset (ec_asset_external_id p) w \<noteq> None \<Longrightarrow> \<exists>x. fst (process_new E p w) = Inr x"
  by (cases "fst (process_new E p w)") (auto dest: process_new_InlD)

lemmas process_new_branches =
  process_new_unknown process_new_no_rule process_new_suppressed process_new_opened

lemma record_event_eqD:
  assumes "record_event E p a w = (e, w1)"
  shows "events (db w1) = events (db w) @ [e]" "incidents (db w1) = incidents (db w)"
    "actions (db w1) = actions (db w)" "rules (db w1) = rules (db w)"
    "audits (db w1) = audits (db w)" "event_asset_id e = asset_id a"
    "event_category e = ec_category p" "event_severity e = ec_severity p"
  using record_event_frame [of E p a w] record_event_row [of E p a w] assms by simp_all

text \<open>
  What a processing adds: the outcome's skip reason determines how many rows of each kind
  are new and which audit entry is written.
\<close>

definition rows_of :: "'r option \<Rightarrow> 'r list" where
  "rows_of x = (case x of None \<Rightarrow> [] | Some r \<Rightarrow> [r])"

definition audit_type_of :: "string option \<Rightarrow> string" where
  "audit_type_of skipped =
     (if skipped = Some ''no_matching_rule'' then ''event_recorded''
      else if skipped = Some ''cooldown'' then ''event_suppressed''
      else if skipped = Some ''queue_backpressure'' then ''queue_backpressure''
      else ''incident_created'')"

lemma open_incident_rows:
  assumes "open_incident E p a r e w = ((e', i, act, sk), w')"
  shows "e' = e" "\<exists>x. i = Some x \<and> incidents (db w') = incidents (db w) @ [x]"
    "actions (db w') = actions (db w) @ rows_of act"
    "map audit_event_type (audits (db w')) = map audit_event_type (audits (db w)) @ [audit_type_of sk]"
    "sk = Some ''queue_backpressure'' \<longleftrightarrow>
       rule_action_type r \<noteq> ''none'' \<and> max_queue_backlog (cfg E) \<le> queue_backlog (db w)"
    "act \<noteq> None \<longleftrightarrow>
       rule_action_type r \<noteq> ''none'' \<and> queue_backlog (db w) < max_queue_backlog (cfg E)"
    "sk \<in> {None, Some ''queue_backpressure''}"
  using assms by (auto simp: open_incident_def Let_def split_beta rows_of_def audit_type_of_def
      queue_backlog_def split: if_splits)

section \<open>Properties\<close>

text \<open>The payload of the demo run (\<open>cli.py\<close>), used where a property is applied.\<close>

definition demo_payload :: event_create where
  "demo_payload =
     \<lparr>ec_asset_external_id = ''PUMP-101'', ec_source = ''north-gateway'',
      ec_category = ''offline'', ec_severity = 88,
      ec_message = ''Heartbeat missing for the synthetic pump controller'',
      ec_executor_mode = ''success'', ec_idempotency_key = None, ec_correlation_id = None\<rparr>"

lemmas processor_eval =
  process_def process_new_def record_event_def open_incident_def in_cooldown_def
  correlation_id_or_new_def match_def find_asset_def queue_backlog_def in_backlog_def
  session_ops sqlite_new_id_def now_utc_def uuid4_hex_def minutes_def default_settings_def Let_def

definition demo_event :: operational_event where
  "demo_event =
     \<lparr>event_id = 1, event_asset_id = 1, event_source = ''north-gateway'',
      event_category = ''offline'', event_severity = 88,
      event_message = ''Heartbeat missing for the synthetic pump controller'',
      event_correlation_id = ''corr-'' @ str_nat 0, event_created_at = 1000000000001\<rparr>"

definition demo_incident :: incident where
  "demo_incident =
     \<lparr>incident_id = 1, incident_asset_id = 1, incident_rule_id = 1, incident_event_id = 1,
      incident_state = incident_state_value IncidentState_OPEN,
      incident_summary = ''Offline device triage: PUMP-101 reported offline'',
      incident_created_at = 1000000000003, incident_updated_at = 1000000000004\<rparr>"

definition demo_action :: action where
  "demo_action =
     \<lparr>action_id = 1, action_incident_id = 1, action_action_type = ''create_ticket'',
      action_state = action_state_value ActionState_QUEUED, action_attempts = 0,
      action_detail = ''success'', action_next_attempt_at = Some 1000000000005,
      action_lease_id = None, action_leased_at = None, action_created_at = 1000000000006,
      action_updated_at = 1000000000007\<rparr>"

text \<open>The world after the demo event (not yet committed).\<close>

definition demo_world1 :: world where
  "demo_world1 = demo_world\<lparr>db := (db demo_world)
     \<lparr>assets := [\<lparr>asset_id = 1, asset_external_id = ''PUMP-101'',
          asset_name = ''North pump controller'', asset_group = ''water-treatment'',
          asset_status = ''offline''\<rparr>,
        \<lparr>asset_id = 2, asset_external_id = ''GATEWAY-7'',
          asset_name = ''Warehouse telemetry gateway'', asset_group = ''logistics'',
          asset_status = ''unknown''\<rparr>,
        \<lparr>asset_id = 3, asset_external_id = ''SENSOR-44'',
          asset_name = ''Cold room synthetic sensor'', asset_group = ''facilities'',
          asset_status = ''unknown''\<rparr>],
      events := [demo_event], incidents := [demo_incident], actions := [demo_action],
      audits := [\<lparr>audit_id = 1, audit_event_type = ''incident_created'',
        audit_entity_type = ''incident'', audit_entity_id = 1,
        audit_message = ''Offline device triage: PUMP-101 reported offline'',
        audit_created_at = 1000000000008\<rparr>]\<rparr>, reads := 9\<rparr>"

lemma demo_run:
  "process_new demo_env demo_payload demo_world =
     (Inr (demo_event, Some demo_incident, Some demo_action, None), demo_world1)"
  by (simp add: processor_eval demo_world_eq demo_payload_def demo_event_def demo_incident_def
      demo_action_def demo_world1_def)

lemma demo_world1_tables [simp]:
  "rules (db demo_world1) = rules (db demo_world)" "events (db demo_world1) = [demo_event]"
  "incidents (db demo_world1) = [demo_incident]" "actions (db demo_world1) = [demo_action]"
  "idems (db demo_world1) = []" "jobs (db demo_world1) = []" "checks (db demo_world1) = []"
  "saved demo_world1 = db demo_world" "reads demo_world1 = 9"
  by (simp_all add: demo_world1_def)

lemma world_ok_demo1 [simp]: "world_ok demo_world1"
proof -
  have "wf demo_world" using world_ok_demo by (simp add: world_ok_def)
  from wf_process_new [OF demo_env_ok(1,2) this, of demo_payload]
  show ?thesis using world_ok_demo by (simp add: demo_run world_ok_def)
qed

lemma process_new_rows:
  assumes "process_new E p w = (Inr (e, i, act, sk), w')"
  shows "events (db w') = events (db w) @ [e] \<and>
    (\<exists>a \<in> set (assets (db w)). asset_external_id a = ec_asset_external_id p \<and>
       event_asset_id e = asset_id a \<and> event_category e = ec_category p \<and>
       event_severity e = ec_severity p) \<and>
    incidents (db w') = incidents (db w) @ rows_of i \<and>
    actions (db w') = actions (db w) @ rows_of act \<and>
    (sk \<in> {Some ''no_matching_rule'', Some ''cooldown''} \<longrightarrow> i = None \<and> act = None) \<and>
    (sk = Some ''queue_backpressure'' \<longrightarrow> i \<noteq> None \<and> act = None) \<and>
    (sk \<notin> {Some ''no_matching_rule'', Some ''cooldown'', Some ''queue_backpressure''} \<longrightarrow>
       sk = None \<and> i \<noteq> None) \<and>
    map audit_event_type (audits (db w')) = map audit_event_type (audits (db w)) @ [audit_type_of sk]"
proof (cases "find_asset (ec_asset_external_id p) w")
  case None
  then show ?thesis using assms by (simp add: process_new_unknown)
next
  case (Some a)
  have a: "a \<in> set (assets (db w))" "asset_external_id a = ec_asset_external_id p"
    using Some by (auto simp: find_asset_def dest: find_row_SomeD)
  obtain e1 w1 where rec: "record_event E p a w = (e1, w1)" by fastforce
  note facts = record_event_eqD [OF rec]
  consider "match E e1 w1 = None"
    | r where "match E e1 w1 = Some r" "fst (in_cooldown E a (rule_cooldown_minutes r) w1)"
    | r where "match E e1 w1 = Some r" "\<not> fst (in_cooldown E a (rule_cooldown_minutes r) w1)"
    by fastforce
  then show ?thesis
  proof cases
    case 1
    with process_new_no_rule [OF Some rec] assms a facts show ?thesis
      by (auto simp: rows_of_def audit_type_of_def)
  next
    case 2
    with process_new_suppressed [OF Some rec] assms a facts show ?thesis
      by (auto simp: rows_of_def audit_type_of_def)
  next
    case 3
    let ?w2 = "snd (in_cooldown E a (rule_cooldown_minutes r) w1)"
    have "open_incident E p a r e1 ?w2 = ((e, i, act, sk), w')"
      using process_new_opened [OF Some rec 3] assms by (metis Pair_inject prod.collapse sum.inject(2))
    with open_incident_rows [OF this] open_incident_frame(4) [of E p a r e1 ?w2] a facts show ?thesis
      by (auto simp: rows_of_def)
  qed
qed

text \<open>The contents of the rows a processing adds.\<close>

definition recorded_for :: "event_create \<Rightarrow> asset \<Rightarrow> operational_event \<Rightarrow> bool" where
  "recorded_for p a e \<longleftrightarrow>
     event_asset_id e = asset_id a \<and> event_source e = ec_source p \<and> event_category e = ec_category p \<and>
     event_severity e = ec_severity p \<and> event_message e = ec_message p \<and>
     (\<forall>c. ec_correlation_id p = Some c \<and> c \<noteq> [] \<longrightarrow> event_correlation_id e = c)"

definition opened_for :: "automation_rule \<Rightarrow> asset \<Rightarrow> operational_event \<Rightarrow> incident \<Rightarrow> bool" where
  "opened_for r a e x \<longleftrightarrow>
     incident_asset_id x = asset_id a \<and> incident_rule_id x = rule_id r \<and> incident_event_id x = event_id e \<and>
     incident_state x = ''open'' \<and>
     incident_summary x = rule_name r @ '': '' @ asset_external_id a @ '' reported '' @ event_category e"

definition queued_for :: "event_create \<Rightarrow> automation_rule \<Rightarrow> incident \<Rightarrow> action \<Rightarrow> bool" where
  "queued_for p r x y \<longleftrightarrow>
     action_incident_id y = incident_id x \<and> action_action_type y = rule_action_type r \<and>
     action_state y = ''queued'' \<and> action_attempts y = 0 \<and> action_detail y = ec_executor_mode p \<and>
     action_next_attempt_at y \<noteq> None \<and> action_lease_id y = None \<and> action_leased_at y = None"

text \<open>Event type, entity and message of the audit entry.\<close>

definition audit_of ::
  "operational_event \<Rightarrow> incident option \<Rightarrow> string option \<Rightarrow> string \<times> string \<times> int \<times> string" where
  "audit_of e i skipped =
     (case i of
        None \<Rightarrow>
          if skipped = Some ''cooldown''
          then (''event_suppressed'', ''operational_event'', event_id e, ''Cooldown suppressed action'')
          else (''event_recorded'', ''operational_event'', event_id e, ''No rule matched event'')
      | Some x \<Rightarrow>
          if skipped = Some ''queue_backpressure''
          then (''queue_backpressure'', ''incident'', incident_id x, ''Queue backlog limit rejected action'')
          else (''incident_created'', ''incident'', incident_id x, incident_summary x))"

definition audit_fields :: "audit_log \<Rightarrow> string \<times> string \<times> int \<times> string" where
  "audit_fields l = (audit_event_type l, audit_entity_type l, audit_entity_id l, audit_message l)"

lemma record_event_for: "record_event E p a w = (e, w1) \<Longrightarrow> recorded_for p a e"
  by (auto simp: record_event_def recorded_for_def correlation_id_or_new_def add_event_def Let_def split_beta)

lemma add_audit_appends: "\<exists>l. audits (db (add_audit E et en k msg w)) = audits (db w) @ [l] \<and> audit_fields l = (et, en, k, msg)"
  by (simp add: add_audit_def audit_fields_def)

lemma open_incident_writes:
  assumes "open_incident E p a r e w = ((e', i, act, sk), w')"
  shows "\<exists>x. i = Some x \<and> opened_for r a e x \<and> (\<forall>y. act = Some y \<longrightarrow> queued_for p r x y) \<and>
    (\<exists>l. audits (db w') = audits (db w) @ [l] \<and> audit_fields l = audit_of e i sk)"
  using assms
  by (auto simp: open_incident_def add_incident_def add_action_def add_audit_def opened_for_def queued_for_def
      audit_of_def audit_fields_def state_values Let_def split_beta split: if_splits)

lemma process_new_writes:
  assumes "scans_ok E" "process_new E p w = (Inr (e, i, act, sk), w')"
  shows "\<exists>a \<in> set (assets (db w)). asset_external_id a = ec_asset_external_id p \<and> recorded_for p a e \<and>
    assets (db w') = put_row asset_id (a\<lparr>asset_status := ec_category p\<rparr>) (assets (db w)) \<and>
    (\<forall>x. i = Some x \<longrightarrow> (\<exists>r \<in> set (rules (db w)). rule_justifies r e \<and> opened_for r a e x \<and>
       (\<forall>y. act = Some y \<longrightarrow> queued_for p r x y))) \<and>
    (\<exists>l. audits (db w') = audits (db w) @ [l] \<and> audit_fields l = audit_of e i sk)"
proof (cases "find_asset (ec_asset_external_id p) w")
  case None
  then show ?thesis using assms(2) by (simp add: process_new_unknown)
next
  case (Some a)
  have a: "a \<in> set (assets (db w))" "asset_external_id a = ec_asset_external_id p"
    using Some by (auto simp: find_asset_def dest: find_row_SomeD)
  obtain e1 w1 where rec: "record_event E p a w = (e1, w1)" by fastforce
  note facts = record_event_eqD [OF rec] and for_event = record_event_for [OF rec]
  have row: "assets (db w1) = put_row asset_id (a\<lparr>asset_status := ec_category p\<rparr>) (assets (db w))"
    using record_event_frame(2) [of E p a w] rec by simp
  consider "match E e1 w1 = None"
    | r where "match E e1 w1 = Some r" "fst (in_cooldown E a (rule_cooldown_minutes r) w1)"
    | r where "match E e1 w1 = Some r" "\<not> fst (in_cooldown E a (rule_cooldown_minutes r) w1)"
    by fastforce
  then show ?thesis
  proof cases
    case 1
    with process_new_no_rule [OF Some rec] assms(2)
    have "e = e1" "i = None" "sk = Some ''no_matching_rule''"
      "w' = add_audit E ''event_recorded'' ''operational_event'' (event_id e1) ''No rule matched event'' w1" by auto
    then show ?thesis
      using a for_event row facts(5)
        add_audit_appends [of E "''event_recorded''" "''operational_event''" "event_id e1" "''No rule matched event''" w1]
      by (intro bexI [of _ a]) (simp_all add: audit_of_def)
  next
    case 2
    let ?w2 = "snd (in_cooldown E a (rule_cooldown_minutes r) w1)"
    from process_new_suppressed [OF Some rec 2] assms(2)
    have "e = e1" "i = None" "sk = Some ''cooldown''"
      "w' = add_audit E ''event_suppressed'' ''operational_event'' (event_id e1) ''Cooldown suppressed action'' ?w2" by auto
    then show ?thesis
      using a for_event row facts(5)
        add_audit_appends [of E "''event_suppressed''" "''operational_event''" "event_id e1" "''Cooldown suppressed action''" ?w2]
      by (intro bexI [of _ a]) (simp_all add: audit_of_def)
  next
    case 3
    let ?w2 = "snd (in_cooldown E a (rule_cooldown_minutes r) w1)"
    have run: "open_incident E p a r e1 ?w2 = ((e, i, act, sk), w')"
      using process_new_opened [OF Some rec 3] assms(2) by (metis Pair_inject prod.collapse sum.inject(2))
    have "e = e1" using open_incident_rows [OF run] by blast
    note r = match_SomeD [OF assms(1) 3(1)]
    have "assets (db w') = assets (db w1)" using open_incident_frame(2) [of E p a r e1 ?w2] run by simp
    moreover obtain x where "i = Some x" "opened_for r a e1 x" "\<forall>y. act = Some y \<longrightarrow> queued_for p r x y"
      "\<exists>l. audits (db w') = audits (db w1) @ [l] \<and> audit_fields l = audit_of e1 i sk"
      using open_incident_writes [OF run] by auto
    ultimately show ?thesis
      using a for_event row facts(4,5) r \<open>e = e1\<close> by (intro bexI [of _ a]) auto
  qed
qed

text \<open>
  C11. Exactly what a successful processing adds: one event with the fields of the payload, for
  the asset it names, whose status becomes the event's category; no incident and no action
  for \<open>no_matching_rule\<close> and \<open>cooldown\<close>, an incident without an action for
  \<open>queue_backpressure\<close>, an incident and at most one action otherwise, opened under a stored
  rule that matches the event and queued with its action type; and one audit entry, whose
  type, entity and message the outcome fixes. The rules, jobs, checks and idempotency
  records are untouched, and nothing is committed.
\<close>

theorem process_new_effects:
  assumes "scans_ok E" "process_new E p w = (Inr (e, i, act, sk), w')"
  shows "events (db w') = events (db w) @ [e] \<and>
    (\<exists>a \<in> set (assets (db w)). asset_external_id a = ec_asset_external_id p \<and> recorded_for p a e \<and>
       assets (db w') = map (\<lambda>x. if asset_id x = asset_id a then a\<lparr>asset_status := ec_category p\<rparr> else x) (assets (db w)) \<and>
       (\<forall>x. i = Some x \<longrightarrow> (\<exists>r \<in> set (rules (db w)). rule_justifies r e \<and> opened_for r a e x \<and>
          (\<forall>y. act = Some y \<longrightarrow> queued_for p r x y)))) \<and>
    incidents (db w') = incidents (db w) @ rows_of i \<and>
    actions (db w') = actions (db w) @ rows_of act \<and>
    (sk \<in> {Some ''no_matching_rule'', Some ''cooldown''} \<longrightarrow> i = None \<and> act = None) \<and>
    (sk = Some ''queue_backpressure'' \<longrightarrow> i \<noteq> None \<and> act = None) \<and>
    (sk \<notin> {Some ''no_matching_rule'', Some ''cooldown'', Some ''queue_backpressure''} \<longrightarrow>
       sk = None \<and> i \<noteq> None) \<and>
    (\<exists>l. audits (db w') = audits (db w) @ [l] \<and> audit_fields l = audit_of e i sk) \<and>
    rules (db w') = rules (db w) \<and> jobs (db w') = jobs (db w) \<and> checks (db w') = checks (db w) \<and>
    idems (db w') = idems (db w) \<and> saved w' = saved w"
proof -
  have frame: "rules (db w') = rules (db w)" "jobs (db w') = jobs (db w)" "checks (db w') = checks (db w)"
    "idems (db w') = idems (db w)" "saved w' = saved w"
    using process_new_frame [of E p w] assms(2) by simp_all
  obtain a where a: "a \<in> set (assets (db w))" "asset_external_id a = ec_asset_external_id p" "recorded_for p a e"
      "assets (db w') = put_row asset_id (a\<lparr>asset_status := ec_category p\<rparr>) (assets (db w))"
      "\<forall>x. i = Some x \<longrightarrow> (\<exists>r \<in> set (rules (db w)). rule_justifies r e \<and> opened_for r a e x \<and>
         (\<forall>y. act = Some y \<longrightarrow> queued_for p r x y))"
    and l: "\<exists>l. audits (db w') = audits (db w) @ [l] \<and> audit_fields l = audit_of e i sk"
    using process_new_writes [OF assms] by blast
  have asset: "\<exists>a \<in> set (assets (db w)). asset_external_id a = ec_asset_external_id p \<and> recorded_for p a e \<and>
       assets (db w') = map (\<lambda>x. if asset_id x = asset_id a then a\<lparr>asset_status := ec_category p\<rparr> else x) (assets (db w)) \<and>
       (\<forall>x. i = Some x \<longrightarrow> (\<exists>r \<in> set (rules (db w)). rule_justifies r e \<and> opened_for r a e x \<and>
          (\<forall>y. act = Some y \<longrightarrow> queued_for p r x y)))"
    using a by (intro bexI [of _ a] conjI) (simp_all add: put_row_def)
  from process_new_rows [OF assms(2)] asset l frame show ?thesis by (elim conjE) (intro conjI; assumption)
qed

theorem process_new_effects_witness:
  "events (db demo_world1) = events (db demo_world) @ [demo_event] \<and>
   incidents (db demo_world1) = incidents (db demo_world) @ rows_of (Some demo_incident) \<and>
   jobs (db demo_world1) = jobs (db demo_world) \<and>
   (\<exists>l. audits (db demo_world1) = audits (db demo_world) @ [l] \<and>
      audit_fields l = audit_of demo_event (Some demo_incident) None)"
  using process_new_effects [OF demo_env_ok(2) demo_run] by blast

text \<open>
  The declarative decision: the rule that wins, and what it makes of an event at time \<open>t\<close>
  when \<open>limit\<close> bounds the queue.
\<close>

definition best_rule :: "database \<Rightarrow> operational_event \<Rightarrow> automation_rule \<Rightarrow> bool" where
  "best_rule d e r \<longleftrightarrow> r \<in> set (rules d) \<and> rule_justifies r e \<and>
     (\<forall>q \<in> set (rules d). rule_justifies q e \<longrightarrow> rule_minimum_severity q \<le> rule_minimum_severity r)"

definition decided ::
  "database \<Rightarrow> int \<Rightarrow> int \<Rightarrow> instant \<Rightarrow> automation_rule \<Rightarrow> incident option \<Rightarrow> action option \<Rightarrow>
   string option \<Rightarrow> bool" where
  "decided d limit aid t r i act sk \<longleftrightarrow>
     (sk = Some ''cooldown'' \<longleftrightarrow> 0 < rule_cooldown_minutes r \<and>
        recent_unresolved d aid (rule_cooldown_minutes r) t) \<and>
     (i \<noteq> None \<longleftrightarrow> sk \<noteq> Some ''cooldown'') \<and>
     (\<forall>x. i = Some x \<longrightarrow> incident_rule_id x = rule_id r) \<and>
     (sk = Some ''queue_backpressure'' \<longleftrightarrow>
        i \<noteq> None \<and> rule_action_type r \<noteq> ''none'' \<and> limit \<le> queue_backlog d) \<and>
     (act \<noteq> None \<longleftrightarrow>
        i \<noteq> None \<and> rule_action_type r \<noteq> ''none'' \<and> queue_backlog d < limit)"

lemma open_incident_rule:
  "open_incident E p a r e w = ((e', Some x, act, sk), w') \<Longrightarrow> incident_rule_id x = rule_id r"
  by (auto simp: open_incident_def Let_def split_beta split: if_splits)

lemma process_new_decided:
  assumes "scans_ok E" "find_asset (ec_asset_external_id p) w = Some a"
    and "record_event E p a w = (e, w1)"
  shows "\<exists>i act sk w'. process_new E p w = (Inr (e, i, act, sk), w') \<and>
    (if \<exists>r \<in> set (rules (db w)). rule_justifies r e
     then \<exists>r. best_rule (db w) e r \<and>
       decided (db w) (max_queue_backlog (cfg E)) (asset_id a) (clock E (reads w1)) r i act sk
     else sk = Some ''no_matching_rule'')"
proof (cases "match E e w1")
  case None
  with process_new_no_rule [OF assms(2,3)] match_None_iff [OF assms(1), of e w1]
    record_event_eqD(4) [OF assms(3)]
  show ?thesis by simp
next
  case (Some r)
  note facts = record_event_eqD [OF assms(3)] and r = match_SomeD [OF assms(1) Some]
  have best: "best_rule (db w) e r" using r facts(4) by (simp add: best_rule_def)
  have some: "\<exists>r \<in> set (rules (db w)). rule_justifies r e" using r facts(4) by auto
  let ?spec = "decided (db w) (max_queue_backlog (cfg E)) (asset_id a) (clock E (reads w1)) r"
  have cool: "fst (in_cooldown E a (rule_cooldown_minutes r) w1) \<longleftrightarrow> 0 < rule_cooldown_minutes r \<and>
      recent_unresolved (db w) (asset_id a) (rule_cooldown_minutes r) (clock E (reads w1))"
    using facts by (simp add: in_cooldown_iff recent_unresolved_def)
  have "\<exists>i act sk w'. process_new E p w = (Inr (e, i, act, sk), w') \<and> ?spec i act sk"
  proof (cases "fst (in_cooldown E a (rule_cooldown_minutes r) w1)")
    case True
    then have "?spec None None (Some ''cooldown'')" using cool by (simp add: decided_def)
    with process_new_suppressed [OF assms(2,3) Some True] show ?thesis by blast
  next
    case False
    obtain e' i act sk w' where
      opened: "open_incident E p a r e (snd (in_cooldown E a (rule_cooldown_minutes r) w1)) = ((e', i, act, sk), w')"
      by (metis prod.exhaust)
    note rows = open_incident_rows [OF opened]
    have "queue_backlog (db w1) = queue_backlog (db w)"
      using facts by (simp add: queue_backlog_def)
    then have "?spec i act sk"
      using rows False cool opened by (auto simp: decided_def dest: open_incident_rule)
    with process_new_opened [OF assms(2,3) Some False] opened rows(1) show ?thesis by auto
  qed
  with best some show ?thesis by auto
qed

text \<open>
  C10. Which outcome it is: for a known asset the processing succeeds; it reports
  \<open>no_matching_rule\<close> exactly when no enabled rule of the event's category has a threshold
  its severity reaches, and otherwise the decision is the one of a matching rule \<open>r\<close> of the
  highest threshold: \<open>cooldown\<close> exactly when \<open>r\<close> has a cooldown and an unresolved incident
  of the asset falls into it, else an incident for \<open>r\<close>, \<open>queue_backpressure\<close> exactly when
  \<open>r\<close> has an action and the queue is at its limit, and an action exactly when \<open>r\<close> has
  one and the queue has room.
\<close>

theorem process_new_decision:
  assumes "scans_ok E" "find_asset (ec_asset_external_id p) w = Some a"
    and "record_event E p a w = (e, w1)"
  shows "\<exists>i act sk w'. process_new E p w = (Inr (e, i, act, sk), w') \<and>
    (if \<exists>r \<in> set (rules (db w)). rule_justifies r e
     then \<exists>r. best_rule (db w) e r \<and>
       decided (db w) (max_queue_backlog (cfg E)) (asset_id a) (clock E (reads w1)) r i act sk
     else sk = Some ''no_matching_rule'')"
  by (rule process_new_decided [OF assms])

theorem process_new_decision_witness:
  "\<exists>r. best_rule (db demo_world) demo_event r \<and>
     decided (db demo_world) 10000 1 1000000000002 r (Some demo_incident) (Some demo_action) None"
proof -
  let ?a = "hd (assets (db demo_world))"
  have found: "find_asset (ec_asset_external_id demo_payload) demo_world = Some ?a"
    by (simp add: find_asset_def demo_world_eq demo_payload_def)
  have rec: "record_event demo_env demo_payload ?a demo_world =
      (demo_event, snd (record_event demo_env demo_payload ?a demo_world))"
    and reads: "reads (snd (record_event demo_env demo_payload ?a demo_world)) = 2"
    by (simp_all add: processor_eval demo_world_eq demo_payload_def demo_event_def)
  have just: "\<exists>r \<in> set (rules (db demo_world)). rule_justifies r demo_event"
    by (simp add: demo_world_eq demo_event_def rule_justifies_def)
  have id: "asset_id ?a = 1" by (simp add: demo_world_eq)
  from process_new_decision [OF demo_env_ok(2) found rec] show ?thesis
    using just reads id by (simp add: demo_run default_settings_def)
qed

lemma in_cooldown_reads:
  "0 < m \<Longrightarrow> reads (snd (in_cooldown E a m w)) = reads w + 1"
  by (simp add: in_cooldown_def Let_def split_beta)

lemma open_incident_time:
  "open_incident E p a r e w = ((e', Some x, act, sk), w') \<Longrightarrow>
   incident_created_at x = clock E (reads w) \<and> incident_asset_id x = asset_id a \<and>
   incident_rule_id x = rule_id r \<and> incident_state x = incident_state_value IncidentState_OPEN"
  by (auto simp: open_incident_def Let_def split_beta split: if_splits)

lemma process_new_spacing:
  assumes "scans_ok E" "clock_ok E" "process_new E p w = (Inr (e, Some i, act, sk), w')"
  shows "\<exists>r \<in> set (rules (db w)). rule_id r = incident_rule_id i \<and> rule_justifies r e \<and>
    (0 < rule_cooldown_minutes r \<longrightarrow>
       (\<forall>j \<in> set (incidents (db w)). incident_asset_id j = incident_asset_id i \<longrightarrow>
          incident_state j \<noteq> incident_state_value IncidentState_RESOLVED \<longrightarrow>
          incident_created_at j + minutes (rule_cooldown_minutes r) < incident_created_at i))"
proof -
  obtain a where a: "find_asset (ec_asset_external_id p) w = Some a"
    using assms(3) by (cases "find_asset (ec_asset_external_id p) w") (auto simp: process_new_unknown)
  obtain e1 w1 where rec: "record_event E p a w = (e1, w1)" by fastforce
  note facts = record_event_eqD [OF rec]
  obtain r where r: "match E e1 w1 = Some r"
    using process_new_no_rule [OF a rec] assms(3) by (cases "match E e1 w1") auto
  let ?w2 = "snd (in_cooldown E a (rule_cooldown_minutes r) w1)"
  have warm: "\<not> fst (in_cooldown E a (rule_cooldown_minutes r) w1)"
    using process_new_suppressed [OF a rec r] assms(3) by auto
  then have opened: "open_incident E p a r e1 ?w2 = ((e, Some i, act, sk), w')"
    using process_new_opened [OF a rec r] assms(3) by (metis Pair_inject prod.collapse sum.inject(2))
  note i = open_incident_time [OF opened] and e = open_incident_rows(1) [OF opened]
  have "incident_created_at j + minutes (rule_cooldown_minutes r) < incident_created_at i"
    if "0 < rule_cooldown_minutes r" "j \<in> set (incidents (db w))" "incident_asset_id j = incident_asset_id i"
      "incident_state j \<noteq> incident_state_value IncidentState_RESOLVED" for j
  proof -
    have "clock E (reads w1) \<le> clock E (reads ?w2)"
      using assms(2) in_cooldown_reads [OF that(1), of E a w1] by (simp add: clock_ok_def)
    with warm that i facts show ?thesis by (fastforce simp: in_cooldown_iff recent_unresolved_def)
  qed
  then show ?thesis
    using match_SomeD [OF assms(1) r] i e facts by (intro bexI [of _ r]) auto
qed

lemma open_incident_state:
  "fst (open_incident E p a r e w) = (e', Some x, act, sk) \<Longrightarrow>
   incident_state x = incident_state_value IncidentState_OPEN"
  by (auto simp: open_incident_def Let_def split_beta split: if_splits)

lemma process_new_open:
  "process_new E p w = (Inr (e, Some i, act, sk), w') \<Longrightarrow>
   incident_state i = incident_state_value IncidentState_OPEN"
  by (auto simp: process_new_def Let_def split_beta split: option.splits if_splits
      dest!: open_incident_state)

text \<open>
  Cooldown spacing: when a processing opens an incident under a rule with a cooldown,
  every unresolved incident of the same asset was created more than that cooldown before
  the new one.
\<close>

lemma cooldown_spacing:
  assumes "scans_ok E" "clock_ok E" "process_new E p w = (Inr (e, Some i, act, sk), w')"
  shows "\<exists>r \<in> set (rules (db w)). rule_id r = incident_rule_id i \<and> rule_justifies r e \<and>
    (0 < rule_cooldown_minutes r \<longrightarrow>
       (\<forall>j \<in> set (incidents (db w)). incident_asset_id j = incident_asset_id i \<longrightarrow>
          incident_state j \<noteq> incident_state_value IncidentState_RESOLVED \<longrightarrow>
          incident_created_at j + minutes (rule_cooldown_minutes r) < incident_created_at i))"
  by (rule process_new_spacing [OF assms])

text \<open>The same payload half an hour after the demo run.\<close>

definition half_hour_env :: env where
  "half_hour_env = demo_env\<lparr>clock := (\<lambda>n. 1000000000000 + int n + (if 9 \<le> n then minutes 30 else 0))\<rparr>"

lemma half_hour_env_ok: "scans_ok half_hour_env" "clock_ok half_hour_env"
  by (auto simp: half_hour_env_def scans_ok_def clock_ok_def minutes_def)

lemma half_hour_run:
  "\<exists>e i act sk w'. process_new half_hour_env demo_payload demo_world1 = (Inr (e, Some i, act, sk), w') \<and>
     incident_asset_id i = 1 \<and> incident_rule_id i = 1"
  by (simp add: half_hour_env_def processor_eval demo_world1_def demo_world_eq demo_payload_def
      demo_event_def demo_incident_def demo_action_def)

lemma cooldown_spacing_witness:
  "\<exists>e i act sk w'. process_new half_hour_env demo_payload demo_world1 = (Inr (e, Some i, act, sk), w') \<and>
     incident_created_at demo_incident + minutes 20 < incident_created_at i"
proof -
  obtain e i act sk w' where
    run: "process_new half_hour_env demo_payload demo_world1 = (Inr (e, Some i, act, sk), w')"
    and i: "incident_asset_id i = 1" "incident_rule_id i = 1"
    using half_hour_run by blast
  from cooldown_spacing [OF half_hour_env_ok run] i
  have "incident_created_at demo_incident + minutes 20 < incident_created_at i"
    by (auto simp: demo_world_eq demo_incident_def)
  with run show ?thesis by blast
qed

text \<open>A full queue takes no action, whatever rule the event matches.\<close>

lemma process_new_full:
  assumes "process_new E p w = (Inr (e, i, act, sk), w')" "max_queue_backlog (cfg E) \<le> queue_backlog (db w)"
  shows "act = None \<and> actions (db w') = actions (db w)"
proof (cases "find_asset (ec_asset_external_id p) w")
  case None
  with assms(1) show ?thesis by (simp add: process_new_unknown)
next
  case (Some a)
  obtain e1 w1 where rec: "record_event E p a w = (e1, w1)" by fastforce
  note same = record_event_eqD(3) [OF rec]
  show ?thesis
  proof (cases "match E e1 w1")
    case None
    with process_new_no_rule [OF Some rec] assms(1) same show ?thesis by auto
  next
    case r: (Some r)
    let ?w2 = "snd (in_cooldown E a (rule_cooldown_minutes r) w1)"
    show ?thesis
    proof (cases "fst (in_cooldown E a (rule_cooldown_minutes r) w1)")
      case True
      with process_new_suppressed [OF Some rec r] assms(1) same show ?thesis by auto
    next
      case False
      have "open_incident E p a r e1 ?w2 = ((e, i, act, sk), w')"
        using process_new_opened [OF Some rec r False] assms(1) by (simp add: prod_eq_iff)
      note rows = open_incident_rows [OF this]
      have "queue_backlog (db ?w2) = queue_backlog (db w)" using same by (simp add: queue_backlog_def)
      then have "act = None" using rows(6) assms(2) by auto
      then show ?thesis using rows(3) same by (simp add: rows_of_def)
    qed
  qed
qed

text \<open>The actions that wait for an attempt, by their stored state.\<close>

definition waiting_actions :: "database \<Rightarrow> int" where
  "waiting_actions d = int (length (filter (\<lambda>a. action_state a = ''queued'' \<or> action_state a = ''retry'') (actions d)))"

lemma queue_backlog_waiting: "queue_backlog d = waiting_actions d"
proof -
  have "in_backlog = (\<lambda>a. action_state a = ''queued'' \<or> action_state a = ''retry'')"
    by (rule ext) (simp add: in_backlog_def state_values)
  then show ?thesis by (simp add: queue_backlog_def waiting_actions_def)
qed

lemma process_new_backlog:
  "queue_backlog (db (snd (process_new E p w))) \<le> max (queue_backlog (db w)) (max_queue_backlog (cfg E))"
proof (cases "find_asset (ec_asset_external_id p) w")
  case None
  then show ?thesis by (simp add: process_new_unknown)
next
  case (Some a)
  have opened: "queue_backlog (db (snd (open_incident E p a r e v))) \<le>
      max (queue_backlog (db v)) (max_queue_backlog (cfg E))" for r e v
    by (auto simp: open_incident_def queue_backlog_def Let_def split_beta in_backlog_def)
  have kept: "queue_backlog (db (snd (record_event E p a w))) = queue_backlog (db w)"
    by (simp add: queue_backlog_def)
  obtain e w1 where rec: "record_event E p a w = (e, w1)" by fastforce
  show ?thesis
  proof (cases "match E e w1")
    case None
    with process_new_no_rule [OF Some rec] kept rec show ?thesis by (simp add: queue_backlog_def)
  next
    case r: (Some r)
    have "queue_backlog (db (snd (in_cooldown E a (rule_cooldown_minutes r) w1))) = queue_backlog (db w)"
      using kept rec by simp
    with process_new_suppressed [OF Some rec r] process_new_opened [OF Some rec r]
      opened [of r e "snd (in_cooldown E a (rule_cooldown_minutes r) w1)"]
    show ?thesis
      by (cases "fst (in_cooldown E a (rule_cooldown_minutes r) w1)") (simp_all add: queue_backlog_def)
  qed
qed

text \<open>
  C12. Backpressure: processing an event never takes the queue (queued and retry actions)
  above the configured limit; a queue that is already longer does not grow.
\<close>

theorem backlog_bounded:
  "waiting_actions (db (snd (process_new E p w))) \<le> max (waiting_actions (db w)) (max_queue_backlog (cfg E))"
  using process_new_backlog [of E p w] by (simp only: queue_backlog_waiting)

text \<open>
  C13. The cooldown looks at the asset only: once a rule with a cooldown matches, any
  unresolved incident of the asset inside the window suppresses the event, whatever rule
  and category that incident was opened for.
\<close>

theorem cooldown_is_per_asset:
  assumes "scans_ok E" "find_asset (ec_asset_external_id p) w = Some a"
    and "record_event E p a w = (e, w1)"
    and "\<exists>r \<in> set (rules (db w)). rule_justifies r e"
    and "\<forall>r. best_rule (db w) e r \<longrightarrow> 0 < rule_cooldown_minutes r \<and>
      clock E (reads w1) - minutes (rule_cooldown_minutes r) \<le> incident_created_at j"
    and "j \<in> set (incidents (db w))" "incident_asset_id j = asset_id a"
    and "incident_state j \<noteq> incident_state_value IncidentState_RESOLVED"
  shows "fst (process_new E p w) = Inr (e, None, None, Some ''cooldown'')"
proof -
  obtain r where r: "match E e w1 = Some r"
    using match_None_iff [OF assms(1), of e w1] assms(4) record_event_eqD(4) [OF assms(3)]
    by (cases "match E e w1") auto
  have "best_rule (db w) e r"
    using match_SomeD [OF assms(1) r] record_event_eqD(4) [OF assms(3)] by (simp add: best_rule_def)
  then have "fst (in_cooldown E a (rule_cooldown_minutes r) w1)"
    using assms(5-8) record_event_eqD(2) [OF assms(3)]
    by (auto simp: in_cooldown_iff recent_unresolved_def)
  from process_new_suppressed [OF assms(2,3) r this] show ?thesis by simp
qed

text \<open>A battery event of the asset that was just reported offline.\<close>

definition battery_payload :: event_create where
  "battery_payload = demo_payload\<lparr>ec_category := ''battery_low'', ec_severity := 90\<rparr>"

theorem cooldown_is_per_asset_witness:
  "\<exists>e. fst (process_new demo_env battery_payload demo_world1) = Inr (e, None, None, Some ''cooldown'') \<and>
     event_category e = ''battery_low'' \<and>
     map rule_category (filter (\<lambda>r. rule_id r = incident_rule_id demo_incident) (rules (db demo_world1)))
       = [''offline'']"
proof -
  let ?a = "hd (assets (db demo_world1))"
  let ?e = "fst (record_event demo_env battery_payload ?a demo_world1)"
    and ?w1 = "snd (record_event demo_env battery_payload ?a demo_world1)"
  note eval = demo_world1_def demo_world_eq demo_payload_def battery_payload_def demo_incident_def
  have found: "find_asset (ec_asset_external_id battery_payload) demo_world1 = Some ?a"
    by (simp add: eval find_asset_def)
  have just: "\<exists>r \<in> set (rules (db demo_world1)). rule_justifies r ?e"
    by (simp add: eval rule_justifies_def)
  have reads: "reads ?w1 = 11" by (simp add: eval processor_eval)
  have best: "\<forall>r. best_rule (db demo_world1) ?e r \<longrightarrow> 0 < rule_cooldown_minutes r \<and>
      clock demo_env (reads ?w1) - minutes (rule_cooldown_minutes r) \<le> incident_created_at demo_incident"
    unfolding reads by (auto simp: eval best_rule_def rule_justifies_def minutes_def)
  have j: "demo_incident \<in> set (incidents (db demo_world1))" "incident_asset_id demo_incident = asset_id ?a"
      "incident_state demo_incident \<noteq> incident_state_value IncidentState_RESOLVED"
    by (simp_all add: eval)
  from cooldown_is_per_asset [OF demo_env_ok(2) found prod.collapse [symmetric] just best j]
  show ?thesis by (auto simp: demo_world_eq demo_incident_def battery_payload_def)
qed

end
