(* ===== verification/Idempotency.thy ===== *)
theory Idempotency
  imports Processor
begin

text \<open>
  What an idempotency key guarantees: a stored result is replayed by every later
  processing of the key, nothing is added again, the loser of a race for the key returns
  the winner's result, and waiting for a result ends after a bounded number of polls.
\<close>

section \<open>Stored results\<close>

definition result_stored ::
  "database \<Rightarrow> string \<Rightarrow> int \<Rightarrow> int option \<Rightarrow> int option \<Rightarrow> string option \<Rightarrow> bool" where
  "result_stored d k eid iid aid sk \<longleftrightarrow>
     (\<exists>r \<in> set (idems d). idem_key r = k \<and> idem_event_id r = Some eid \<and>
        idem_incident_id r = iid \<and> idem_action_id r = aid \<and> idem_skipped_reason r = sk)"

lemma result_stored_find:
  assumes "wf w" "result_stored (db w) k eid iid aid sk"
  obtains r where "find_idem k w = Some r" "r \<in> set (idems (db w))" "idem_key r = k"
    "idem_event_id r = Some eid" "idem_incident_id r = iid" "idem_action_id r = aid"
    "idem_skipped_reason r = sk"
proof -
  obtain r where r: "r \<in> set (idems (db w))" "idem_key r = k" "idem_event_id r = Some eid"
    "idem_incident_id r = iid" "idem_action_id r = aid" "idem_skipped_reason r = sk"
    using assms(2) by (auto simp: result_stored_def)
  have "distinct (map idem_key (idems (db w)))" using assms(1) by (simp add: wf_db_def idems_ok_def)
  from find_row_unique [OF this r(1)] r(2) have "find_idem k w = Some r" by (simp add: find_idem_def)
  with r that show thesis by blast
qed

text \<open>The result of a replay: the rows the record points to, by primary key.\<close>

lemma linked_rows:
  assumes "wf w" "r \<in> set (idems (db w))" "idem_event_id r = Some eid"
  shows "\<exists>e. get_event w eid = Some e \<and> event_id e = eid \<and> e \<in> set (events (db w))"
    "idem_incident_id r = Some iid \<Longrightarrow> iid \<noteq> 0 \<and> (\<exists>i. get_incident w iid = Some i \<and> incident_id i = iid)"
    "idem_action_id r = Some aid \<Longrightarrow> aid \<noteq> 0 \<and> (\<exists>a. get_action w aid = Some a \<and> action_id a = aid)"
proof -
  have ok: "events_ok (assets (db w)) (events (db w))" "actions_ok (incidents (db w)) (actions (db w))"
      "incidents_ok (rules (db w)) (events (db w)) (incidents (db w))"
    and linked: "idem_linked (events (db w)) (incidents (db w)) (actions (db w)) r"
    using assms(1,2) by (auto simp: wf_db_def idems_ok_def)
  show "\<exists>e. get_event w eid = Some e \<and> event_id e = eid \<and> e \<in> set (events (db w))"
    using ok(1) linked assms(3) find_row_unique [of event_id "events (db w)"]
    by (fastforce simp: events_ok_def idem_linked_def get_event_def)
  show "iid \<noteq> 0 \<and> (\<exists>i. get_incident w iid = Some i \<and> incident_id i = iid)"
    if "idem_incident_id r = Some iid"
    using ok(3) linked that find_row_unique [of incident_id "incidents (db w)"]
    by (fastforce simp: incidents_ok_def idem_linked_def get_incident_def)
  show "aid \<noteq> 0 \<and> (\<exists>a. get_action w aid = Some a \<and> action_id a = aid)"
    if "idem_action_id r = Some aid"
    using ok(2) linked that find_row_unique [of action_id "actions (db w)"]
    by (fastforce simp: actions_ok_def idem_linked_def get_action_def)
qed

lemma replay_idems:
  "idems (db (snd (replay_idempotent_record E r w))) =
     put_row idem_id (r\<lparr>idem_hits := idem_hits r + 1, idem_updated_at := clock E (reads w)\<rparr>) (idems (db w))"
  by (simp add: replay_idempotent_record_def Let_def split_beta split: option.split)

lemma replay_result:
  assumes "wf w" "r \<in> set (idems (db w))" "idem_event_id r = Some eid"
  shows "\<exists>e i a. fst (replay_idempotent_record E r w) = Inr (e, i, a, idem_skipped_reason r, True) \<and>
    event_id e = eid \<and> e \<in> set (events (db w)) \<and> map_option incident_id i = idem_incident_id r \<and>
    map_option action_id a = idem_action_id r"
proof -
  let ?w = "add_audit E ''idempotency_hit'' ''idempotency_record'' (idem_id r)
    ''Reused idempotent event result'' (put_idem (r\<lparr>idem_hits := idem_hits r + 1,
      idem_updated_at := clock E (reads w)\<rparr>) (snd (now_utc E w)))"
  have same: "get_event ?w = get_event w" "get_incident ?w = get_incident w" "get_action ?w = get_action w"
    by (simp_all add: fun_eq_iff session_queries)
  show ?thesis
    using linked_rows [OF assms] same assms(3)
    by (cases "idem_incident_id r"; cases "idem_action_id r")
      (auto simp: replay_idempotent_record_def Let_def split_beta)
qed

lemma replay_stores:
  assumes "wf w" "r \<in> set (idems (db w))" "result_stored (db w) k eid iid aid sk"
  shows "result_stored (db (snd (replay_idempotent_record E r w))) k eid iid aid sk"
proof -
  obtain q where q: "q \<in> set (idems (db w))" "idem_key q = k" "idem_event_id q = Some eid"
    "idem_incident_id q = iid" "idem_action_id q = aid" "idem_skipped_reason q = sk"
    using assms(3) by (auto simp: result_stored_def)
  let ?r = "r\<lparr>idem_hits := idem_hits r + 1, idem_updated_at := clock E (reads w)\<rparr>"
  have dist: "distinct (map idem_id (idems (db w)))" using assms(1) by (simp add: wf_db_def idems_ok_def)
  have found: "find_row idem_id (idem_id ?r) (idems (db w)) \<noteq> None"
    using find_row_unique [OF dist assms(2)] by simp
  show ?thesis
  proof (cases "idem_id q = idem_id r")
    case True
    then have "q = r"
      using find_row_unique [OF dist q(1)] find_row_unique [OF dist assms(2)] by (metis option.inject)
    moreover have "?r \<in> set (put_row idem_id ?r (idems (db w)))"
      using in_put_row_iff [OF found] by blast
    ultimately show ?thesis
      using q unfolding result_stored_def replay_idems by (intro bexI [of _ ?r]) simp_all
  next
    case False
    then have "q \<in> set (put_row idem_id ?r (idems (db w)))"
      using in_put_row_iff [OF found, of q] q(1) by simp
    with q show ?thesis unfolding result_stored_def replay_idems by (intro bexI [of _ q]) simp_all
  qed
qed

text \<open>
  All that a replay changes: the record of the key counts one more hit, and one audit
  entry is added that points to it.
\<close>

definition only_replayed :: "string \<Rightarrow> database \<Rightarrow> database \<Rightarrow> bool" where
  "only_replayed k d d' \<longleftrightarrow>
     assets d' = assets d \<and> rules d' = rules d \<and> events d' = events d \<and> incidents d' = incidents d \<and>
     actions d' = actions d \<and> jobs d' = jobs d \<and> checks d' = checks d \<and>
     list_all2 (\<lambda>r r'. if idem_key r = k then \<exists>t. r' = r\<lparr>idem_hits := idem_hits r + 1, idem_updated_at := t\<rparr>
        else r' = r) (idems d) (idems d') \<and>
     (\<exists>r l. r \<in> set (idems d) \<and> idem_key r = k \<and> audits d' = audits d @ [l] \<and>
        audit_event_type l = ''idempotency_hit'' \<and> audit_entity_type l = ''idempotency_record'' \<and>
        audit_entity_id l = idem_id r)"

lemma replay_only:
  assumes "wf w" "r \<in> set (idems (db w))"
  shows "only_replayed (idem_key r) (db w) (db (snd (replay_idempotent_record E r w)))"
proof -
  have dist: "distinct (map idem_id (idems (db w)))" "distinct (map idem_key (idems (db w)))"
    using assms(1) by (simp_all add: wf_db_def idems_ok_def)
  have same: "q = r" if "q \<in> set (idems (db w))" "idem_id q = idem_id r \<or> idem_key q = idem_key r" for q
    using that dist assms(2) by (auto simp: distinct_map dest: inj_onD)
  have rows: "list_all2 (\<lambda>q q'. if idem_key q = idem_key r
      then \<exists>t. q' = q\<lparr>idem_hits := idem_hits q + 1, idem_updated_at := t\<rparr> else q' = q)
      (idems (db w)) (idems (db (snd (replay_idempotent_record E r w))))"
    unfolding replay_idems put_row_def list_all2_map2 list_all2_same
  proof
    fix q assume "q \<in> set (idems (db w))"
    from same [OF this] show "if idem_key q = idem_key r
        then \<exists>t. (if idem_id q = idem_id (r\<lparr>idem_hits := idem_hits r + 1, idem_updated_at := clock E (reads w)\<rparr>)
          then r\<lparr>idem_hits := idem_hits r + 1, idem_updated_at := clock E (reads w)\<rparr> else q) =
          q\<lparr>idem_hits := idem_hits q + 1, idem_updated_at := t\<rparr>
        else (if idem_id q = idem_id (r\<lparr>idem_hits := idem_hits r + 1, idem_updated_at := clock E (reads w)\<rparr>)
          then r\<lparr>idem_hits := idem_hits r + 1, idem_updated_at := clock E (reads w)\<rparr> else q) = q"
      by (cases "q = r") auto
  qed
  have "\<exists>l. audits (db (snd (replay_idempotent_record E r w))) = audits (db w) @ [l] \<and>
      audit_event_type l = ''idempotency_hit'' \<and> audit_entity_type l = ''idempotency_record'' \<and>
      audit_entity_id l = idem_id r"
    by (simp add: replay_idempotent_record_def add_audit_def Let_def split_beta split: option.split)
  with rows assms(2) show ?thesis unfolding only_replayed_def by auto
qed

section \<open>Waiting for a result\<close>

definition completed :: "string \<Rightarrow> world \<Rightarrow> bool" where
  "completed k w \<longleftrightarrow> (\<exists>r \<in> set_option (find_idem k w). idem_event_id r \<noteq> None)"

lemma wait_step:
  "wait_for_idempotent_result E k (Suc n) w =
     (if completed k w then replay_idempotent_record E (the (find_idem k w)) w
      else wait_for_idempotent_result E k n (peer_commit E w))"
  by (auto simp: completed_def split: option.split)

text \<open>
  C15. The polling loop is bounded and finds what there is to find: with \<open>n\<close> tries it
  replays the record at the first poll that sees a completed one, and when none of the
  \<open>n\<close> polls sees one it raises the timeout after exactly \<open>n\<close> sleeps, having changed
  nothing itself.
\<close>

theorem wait_bounded:
  "wait_for_idempotent_result E k n w =
     (if \<exists>j < n. completed k ((peer_commit E ^^ j) w)
      then let v = (peer_commit E ^^ (LEAST j. completed k ((peer_commit E ^^ j) w))) w
           in replay_idempotent_record E (the (find_idem k v)) v
      else (Inl (TimeoutError ''idempotent result was not committed before timeout''),
            (peer_commit E ^^ n) w))"
proof (induction n arbitrary: w)
  case 0
  then show ?case by simp
next
  case (Suc n)
  let ?P = "\<lambda>j. completed k ((peer_commit E ^^ j) w)"
  show ?case
  proof (cases "completed k w")
    case True
    then have "?P 0" by simp
    then have "(LEAST j. ?P j) = 0" by (rule Least_eq_0)
    with True \<open>?P 0\<close> show ?thesis by (auto simp del: wait_for_idempotent_result.simps simp: wait_step)
  next
    case False
    have shift: "(peer_commit E ^^ j) (peer_commit E w) = (peer_commit E ^^ Suc j) w" for j
      by (simp only: funpow_Suc_right o_apply)
    have ex: "(\<exists>j < Suc n. ?P j) \<longleftrightarrow> (\<exists>j < n. ?P (Suc j))"
      using False by (auto simp: less_Suc_eq_0_disj simp del: funpow.simps)
    have least: "(LEAST j. ?P j) = Suc (LEAST j. ?P (Suc j))" if later: "\<exists>j. ?P (Suc j)"
    proof -
      obtain m where "?P (Suc m)" using later by blast
      moreover have "\<not> ?P 0" using False by simp
      ultimately show ?thesis by (rule Least_Suc)
    qed
    have "wait_for_idempotent_result E k (Suc n) w = wait_for_idempotent_result E k n (peer_commit E w)"
      using False by (simp only: wait_step if_False)
    also have "\<dots> = (if \<exists>j < Suc n. ?P j
        then let v = (peer_commit E ^^ (LEAST j. ?P j)) w
             in replay_idempotent_record E (the (find_idem k v)) v
        else (Inl (TimeoutError ''idempotent result was not committed before timeout''),
              (peer_commit E ^^ Suc n) w))"
    proof (cases "\<exists>j < n. ?P (Suc j)")
      case True
      then have "(LEAST j. ?P j) = Suc (LEAST j. ?P (Suc j))" by (intro least) blast
      then show ?thesis unfolding Suc.IH shift ex by (simp only: True if_True)
    next
      case False
      then show ?thesis unfolding Suc.IH shift ex by (simp only: if_False)
    qed
    finally show ?thesis .
  qed
qed

lemma wait_InrD:
  assumes "ids_ok E" "peers_ok E" "world_ok w" "wait_for_idempotent_result E k n w = (Inr x, w')"
  obtains v r where "world_ok v" "find_idem k v = Some r" "idem_event_id r \<noteq> None"
    "replay_idempotent_record E r v = (Inr x, w')"
  using assms(3,4)
proof (induction n arbitrary: w thesis)
  case 0
  then show ?case by simp
next
  case (Suc n)
  show ?case
  proof (cases "completed k w")
    case True
    then obtain r where "find_idem k w = Some r" "idem_event_id r \<noteq> None" by (auto simp: completed_def)
    with Suc.prems True show ?thesis by (simp del: wait_for_idempotent_result.simps add: wait_step)
  next
    case False
    with Suc.prems(3) have "wait_for_idempotent_result E k n (peer_commit E w) = (Inr x, w')"
      by (simp only: wait_step if_False)
    from Suc.IH [OF Suc.prems(1) world_ok_peer_commit [OF assms(2) Suc.prems(2)] this]
    show ?thesis .
  qed
qed

section \<open>Processing with a key\<close>

text \<open>An environment without other sessions.\<close>

definition alone :: "env \<Rightarrow> bool" where
  "alone E \<longleftrightarrow> (\<forall>n d. peers E n d = d)"

lemma demo_alone [simp]: "alone demo_env"
  by (simp add: alone_def)

lemma alone_peers_ok: "alone E \<Longrightarrow> peers_ok E"
  by (simp add: alone_def peers_ok_def)

lemma peer_commit_alone [simp]:
  "alone E \<Longrightarrow> db (peer_commit E w) = db w" "alone E \<Longrightarrow> saved (peer_commit E w) = saved w"
  by (simp_all add: peer_commit_def alone_def)

section \<open>Every request keeps the invariant\<close>

lemma process_key:
  "ec_idempotency_key p = Some k \<Longrightarrow> k \<noteq> [] \<Longrightarrow> process E p w = process_with_idempotency E k p w"
  by (simp add: process_def truthy_def)

lemma process_replays:
  assumes "find_idem k w = Some r" "idem_event_id r \<noteq> None"
  shows "process_with_idempotency E k p w = replay_idempotent_record E r w"
  using assms by (simp add: process_with_idempotency_def)

text \<open>A record as it is inserted: the key, and no result yet.\<close>

definition bare_record :: "string \<Rightarrow> idempotency_record \<Rightarrow> bool" where
  "bare_record k r \<longleftrightarrow>
     idem_key r = k \<and> idem_event_id r = None \<and> idem_incident_id r = None \<and> idem_action_id r = None \<and>
     idem_skipped_reason r = None \<and> idem_hits r = 0"

definition with_record :: "idempotency_record \<Rightarrow> database \<Rightarrow> database" where
  "with_record r d = d\<lparr>idems := idems d @ [r]\<rparr>"

lemma with_record_simps [simp]:
  "idems (with_record r d) = idems d @ [r]" "assets (with_record r d) = assets d" "rules (with_record r d) = rules d"
  "events (with_record r d) = events d" "incidents (with_record r d) = incidents d"
  "actions (with_record r d) = actions d" "audits (with_record r d) = audits d" "jobs (with_record r d) = jobs d"
  "checks (with_record r d) = checks d"
  by (simp_all add: with_record_def)

lemma find_idem_None_iff: "find_idem k w = None \<longleftrightarrow> k \<notin> idem_key ` set (idems (db w))"
  by (simp add: find_idem_def find_row_None_iff)

text \<open>What the processing of a new key does with the outcome of the event: its record gets the result.\<close>

definition finish_key :: "env \<Rightarrow> idempotency_record \<Rightarrow> processed outcome \<Rightarrow> process_result outcome" where
  "finish_key E r x =
     (case x of
        (Inl e, w2) \<Rightarrow> (Inl e, w2)
      | (Inr (e, i, a, sk), w2) \<Rightarrow> (Inr (e, i, a, sk, False),
          put_idem (r\<lparr>idem_event_id := Some (event_id e), idem_incident_id := map_option incident_id i,
            idem_action_id := map_option action_id a, idem_skipped_reason := sk,
            idem_updated_at := clock E (reads w2)\<rparr>) (snd (now_utc E w2))))"

lemma finish_key_simps [simp]:
  "finish_key E r (Inl x, w) = (Inl x, w)"
  "fst (finish_key E r (Inr (e, i, a, sk), w)) = Inr (e, i, a, sk, False)"
  "saved (snd (finish_key E r y)) = saved (snd y)"
  by (simp_all add: finish_key_def split_beta split: sum.split)

text \<open>
  A session of its own that processes a key for the first time commits the bare record
  before it looks at the event.
\<close>

lemma process_unused_key:
  assumes "alone E" "db w = saved w" "ec_idempotency_key p = Some k" "k \<noteq> []" "find_idem k w = None"
  obtains r w1 where "bare_record k r" "idem_id r = new_id E (map idem_id (idems (db w)))"
    "db w1 = with_record r (db w)" "saved w1 = db w1"
    "process E p w = finish_key E r (process_new E p w1)"
proof -
  let ?v = "peer_commit E w"
  have v: "db ?v = db w" "saved ?v = db w" using assms(1,2) by simp_all
  obtain r w0 where ins: "add_idem E k ?v = (Inr r, w0)"
    using assms(5) v(1) by (auto simp: add_idem_def Let_def find_idem_None_iff)
  have r: "bare_record k r" "idem_id r = new_id E (map idem_id (idems (db w)))" "db w0 = with_record r (db w)"
    using ins v(1) by (auto simp: add_idem_def Let_def bare_record_def with_record_def split: if_splits)
  let ?w1 = "release_savepoint ?v w0"
  have "db ?w1 = with_record r (db w)" "saved ?w1 = db ?w1" using r(3) v by simp_all
  moreover have "process E p w = finish_key E r (process_new E p ?w1)"
    unfolding process_key [OF assms(3,4)]
    using assms(5) ins by (simp add: process_with_idempotency_def finish_key_def split_beta Let_def split: sum.split)
  ultimately show thesis using that r(1,2) by blast
qed

text \<open>Without other sessions nobody completes a bare record: its key is refused.\<close>

lemma wait_alone:
  assumes "alone E" "\<not> completed k w"
  shows "fst (wait_for_idempotent_result E k n w) = Inl (TimeoutError ''idempotent result was not committed before timeout'')"
    "db (snd (wait_for_idempotent_result E k n w)) = db w" "saved (snd (wait_for_idempotent_result E k n w)) = saved w"
proof -
  have "db ((peer_commit E ^^ j) w) = db w \<and> saved ((peer_commit E ^^ j) w) = saved w" for j
    using assms(1) by (induction j) simp_all
  moreover from this have "\<not> completed k ((peer_commit E ^^ j) w)" for j
    using assms(2) by (simp add: completed_def find_idem_def)
  moreover have "wait_for_idempotent_result E k n v =
      (Inl (TimeoutError ''idempotent result was not committed before timeout''), (peer_commit E ^^ n) v)"
    if "\<And>j. \<not> completed k ((peer_commit E ^^ j) v)" for v
    using that
  proof (induction n arbitrary: v)
    case 0
    then show ?case by simp
  next
    case (Suc n)
    have "\<not> completed k ((peer_commit E ^^ j) (peer_commit E v))" for j
      using Suc.prems [of "Suc j"] by (simp add: funpow_swap1)
    from Suc.IH [OF this] Suc.prems [of 0] show ?case
      by (simp add: wait_step funpow_swap1 del: wait_for_idempotent_result.simps(2))
  qed
  ultimately show "fst (wait_for_idempotent_result E k n w) = Inl (TimeoutError ''idempotent result was not committed before timeout'')"
    "db (snd (wait_for_idempotent_result E k n w)) = db w" "saved (snd (wait_for_idempotent_result E k n w)) = saved w"
    by simp_all
qed

lemma process_left_key:
  assumes "alone E" "db w = saved w" "ec_idempotency_key p = Some k" "k \<noteq> []"
    and "find_idem k w = Some r" "idem_event_id r = None"
  shows "fst (process E p w) = Inl (TimeoutError ''idempotent result was not committed before timeout'')"
    "db (snd (process E p w)) = db w" "saved (snd (process E p w)) = saved w"
proof -
  let ?v = "peer_commit E w"
  have v: "db ?v = db w" "saved ?v = db w" using assms(1,2) by simp_all
  have "find_idem k w \<noteq> None" using assms(5) by simp
  then have taken: "add_idem E k ?v = (Inl (IntegrityError ''idempotency_records.key''), ?v)"
    using v(1) by (simp add: find_idem_None_iff add_idem_def)
  have "process E p w = wait_for_idempotent_result E k 100 (rollback ?v)"
    unfolding process_key [OF assms(3,4)]
    using assms(5,6) taken by (simp add: process_with_idempotency_def)
  moreover have "\<not> completed k (rollback ?v)"
    using assms(5,6) v by (simp add: completed_def find_idem_def)
  ultimately show "fst (process E p w) = Inl (TimeoutError ''idempotent result was not committed before timeout'')"
    "db (snd (process E p w)) = db w" "saved (snd (process E p w)) = saved w"
    using wait_alone [OF assms(1)] v assms(2) by simp_all
qed

lemma put_own_record:
  assumes "r \<in> set rows" "idem_id q = idem_id r"
  shows "q \<in> set (put_row idem_id q rows)"
proof -
  have "find_row idem_id (idem_id q) rows \<noteq> None"
    using assms by (auto simp: find_row_None_iff image_iff)
  then show ?thesis using in_put_row_iff [of idem_id q rows q] by blast
qed

lemma process_with_idempotency_stores:
  assumes "ids_ok E" "scans_ok E" "peers_ok E" "world_ok w"
    and "process_with_idempotency E k p w = (Inr (e, i, a, sk, rep), w')"
  shows "result_stored (db w') k (event_id e) (map_option incident_id i) (map_option action_id a) sk"
proof -
  have replay: "result_stored (db v') k (event_id e) (map_option incident_id i) (map_option action_id a) sk"
    if v: "world_ok v" "find_idem k v = Some r" "idem_event_id r \<noteq> None"
      "replay_idempotent_record E r v = (Inr (e, i, a, sk, rep), v')" for v v' r
  proof -
    obtain eid where eid: "idem_event_id r = Some eid" using v(3) by blast
    have r: "r \<in> set (idems (db v))" "idem_key r = k" using find_idemD [OF v(2)] by auto
    have wf: "wf v" using v(1) by (simp add: world_ok_def)
    have "result_stored (db v) k (event_id e) (map_option incident_id i) (map_option action_id a) sk"
      using replay_result [OF wf r(1) eid, of E] v(4) r eid by (auto simp: result_stored_def)
    from replay_stores [OF wf r(1) this, of E] v(4) show ?thesis by simp
  qed
  show ?thesis
  proof (cases "\<exists>r \<in> set_option (find_idem k w). idem_event_id r \<noteq> None")
    case True
    then obtain r where "find_idem k w = Some r" "idem_event_id r \<noteq> None" by auto
    with replay [OF assms(4)] process_replays [of k w r E p] assms(5) show ?thesis by metis
  next
    case False
    obtain x w1 where ins: "add_idem E k (peer_commit E w) = (x, w1)" by fastforce
    show ?thesis
    proof (cases x)
      case (Inl y)
      then have "wait_for_idempotent_result E k 100 (rollback w1) = (Inr (e, i, a, sk, rep), w')"
        using False ins assms(5) by (simp add: process_with_idempotency_def)
      moreover have "world_ok (rollback w1)"
        using add_idem_InlD ins Inl world_ok_peer_commit [OF assms(3,4)] world_ok_rollback by metis
      ultimately show ?thesis
        using wait_InrD [OF assms(1,3), of "rollback w1" k 100 "(e, i, a, sk, rep)" w'] replay by metis
    next
      case (Inr r)
      note r = add_idem_InrD [OF ins [unfolded Inr]]
      let ?v = "release_savepoint (peer_commit E w) w1"
      obtain y w2 where run: "process_new E p ?v = (y, w2)" by fastforce
      have new: "process_new E p ?v = (Inr (e, i, a, sk), w2)"
        using False ins Inr assms(5) run
        by (auto simp: process_with_idempotency_def split: sum.splits prod.splits)
      have w': "idems (db w') = put_row idem_id (r\<lparr>idem_event_id := Some (event_id e),
            idem_incident_id := map_option incident_id i, idem_action_id := map_option action_id a,
            idem_skipped_reason := sk, idem_updated_at := clock E (reads w2)\<rparr>) (idems (db w2))"
        using False ins Inr assms(5) new
        by (auto simp: process_with_idempotency_def split_beta)
      have "r \<in> set (idems (db w2))" using r process_new_frame(3) [of E p ?v] new by simp
      let ?q = "r\<lparr>idem_event_id := Some (event_id e),
            idem_incident_id := map_option incident_id i, idem_action_id := map_option action_id a,
            idem_skipped_reason := sk, idem_updated_at := clock E (reads w2)\<rparr>"
      from \<open>r \<in> set (idems (db w2))\<close> have "?q \<in> set (put_row idem_id ?q (idems (db w2)))"
        by (rule put_own_record) simp
      with r show ?thesis
        unfolding result_stored_def w' by (intro bexI [of _ ?q]) simp_all
    qed
  qed
qed

lemma stored_replay:
  assumes "wf w" "result_stored (db w) k eid iid aid sk"
    and "ec_idempotency_key q = Some k" "k \<noteq> []"
  shows "\<exists>e i a w'. process E q w = (Inr (e, i, a, sk, True), w') \<and>
    event_id e = eid \<and> map_option incident_id i = iid \<and> map_option action_id a = aid \<and>
    events (db w') = events (db w) \<and> incidents (db w') = incidents (db w) \<and>
    actions (db w') = actions (db w) \<and> assets (db w') = assets (db w) \<and>
    only_replayed k (db w) (db w') \<and> result_stored (db w') k eid iid aid sk"
proof -
  from result_stored_find [OF assms(1,2)] obtain r where
    r: "find_idem k w = Some r" "r \<in> set (idems (db w))" "idem_key r = k"
      "idem_event_id r = Some eid" "idem_incident_id r = iid" "idem_action_id r = aid"
      "idem_skipped_reason r = sk"
    by blast
  have run: "process E q w = replay_idempotent_record E r w"
    using process_key [OF assms(3,4)] process_replays [OF r(1)] r(4) by simp
  obtain e i a where res: "fst (replay_idempotent_record E r w) = Inr (e, i, a, sk, True)"
    "event_id e = eid" "map_option incident_id i = iid" "map_option action_id a = aid"
    using replay_result [OF assms(1) r(2,4), of E] r(5-7) by blast
  let ?w' = "snd (replay_idempotent_record E r w)"
  have "process E q w = (Inr (e, i, a, sk, True), ?w')" using run res(1) by (simp add: prod_eq_iff)
  with res(2-4) replay_frame [of E r w] replay_stores [OF assms(1) r(2) assms(2), of E]
    replay_only [OF assms(1) r(2), of E] r(3)
  show ?thesis by blast
qed

text \<open>
  Replay: once a result is stored under a key, every later processing with the key,
  whatever its payload, succeeds as a replay with the same event, incident, action and
  skip reason, and adds no event, incident or action and changes no asset; the result
  stays stored.
\<close>

lemma stored_result_replayed:
  assumes "wf w" "result_stored (db w) k eid iid aid sk"
    and "ec_idempotency_key q = Some k" "k \<noteq> []"
  shows "\<exists>e i a w'. process E q w = (Inr (e, i, a, sk, True), w') \<and>
    event_id e = eid \<and> map_option incident_id i = iid \<and> map_option action_id a = aid \<and>
    events (db w') = events (db w) \<and> incidents (db w') = incidents (db w) \<and>
    actions (db w') = actions (db w) \<and> assets (db w') = assets (db w) \<and>
    only_replayed k (db w) (db w') \<and> result_stored (db w') k eid iid aid sk"
  by (rule stored_replay [OF assms])

text \<open>
  A processing with a key that succeeded, first or replayed, is repeated by the next
  one: the same event, incident, action and skip reason, marked as a replay.
\<close>

lemma process_then_replay:
  assumes "ids_ok E" "scans_ok E" "peers_ok E" "world_ok w"
    and "ec_idempotency_key p = Some k" "ec_idempotency_key q = Some k" "k \<noteq> []"
    and "process E p w = (Inr (e, i, a, sk, rep), w')"
  shows "\<exists>e' i' a' w''. process E q w' = (Inr (e', i', a', sk, True), w'') \<and>
    event_id e' = event_id e \<and> map_option incident_id i' = map_option incident_id i \<and>
    map_option action_id a' = map_option action_id a \<and>
    events (db w'') = events (db w') \<and> incidents (db w'') = incidents (db w') \<and>
    actions (db w'') = actions (db w')"
proof -
  have "process_with_idempotency E k p w = (Inr (e, i, a, sk, rep), w')"
    using assms(8) process_key [OF assms(5,7)] by simp
  then have stored: "result_stored (db w') k (event_id e) (map_option incident_id i) (map_option action_id a) sk"
    by (rule process_with_idempotency_stores [OF assms(1-4)])
  have "wf w'" using world_ok_process [OF assms(1-4), of p] assms(8) by (simp add: world_ok_def)
  from stored_replay [OF this stored assms(6,7), of E] show ?thesis by blast
qed

text \<open>The demo event with a key, and a different event that reuses the key.\<close>

definition keyed_payload :: event_create where
  "keyed_payload = demo_payload\<lparr>ec_idempotency_key := Some ''intent-demo-0001''\<rparr>"

definition reusing_payload :: event_create where
  "reusing_payload = battery_payload\<lparr>ec_idempotency_key := Some ''intent-demo-0001''\<rparr>"

lemma payload_keys [simp]:
  "ec_idempotency_key keyed_payload = Some ''intent-demo-0001''"
  "ec_idempotency_key reusing_payload = Some ''intent-demo-0001''"
  by (simp_all add: keyed_payload_def reusing_payload_def)

lemma keyed_run:
  "\<exists>e i a w'. process demo_env keyed_payload demo_world = (Inr (e, Some i, Some a, None, False), w') \<and>
     event_id e = 1 \<and> incident_id i = 1 \<and> action_id a = 1 \<and>
     length (events (db w')) = 1 \<and> length (incidents (db w')) = 1 \<and> length (actions (db w')) = 1"
  by (simp add: processor_eval process_with_idempotency_def truthy_def find_idem_def peer_commit_def
      demo_world_eq keyed_payload_def demo_payload_def)

lemma keyed_stored:
  "result_stored (db (snd (process demo_env keyed_payload demo_world))) ''intent-demo-0001'' 1 (Some 1) (Some 1) None"
proof -
  obtain e i a w' where
    run: "process demo_env keyed_payload demo_world = (Inr (e, Some i, Some a, None, False), w')"
    and ids: "event_id e = 1" "incident_id i = 1" "action_id a = 1"
    using keyed_run by blast
  then have "process_with_idempotency demo_env ''intent-demo-0001'' keyed_payload demo_world =
      (Inr (e, Some i, Some a, None, False), w')"
    using process_key [of keyed_payload "''intent-demo-0001''" demo_env demo_world] by simp
  from process_with_idempotency_stores [OF demo_env_ok(1,2) demo_peers_ok world_ok_demo this] ids run
  show ?thesis by simp
qed

lemma stored_result_replayed_witness:
  "\<exists>e i a w'. process demo_env reusing_payload (snd (process demo_env keyed_payload demo_world)) =
       (Inr (e, Some i, Some a, None, True), w') \<and>
     event_id e = 1 \<and> incident_id i = 1 \<and> action_id a = 1"
proof -
  have "world_ok (snd (process demo_env keyed_payload demo_world))" by (simp add: world_ok_process)
  then have "wf (snd (process demo_env keyed_payload demo_world))" by (simp add: world_ok_def)
  from stored_result_replayed [OF this keyed_stored payload_keys(2), of demo_env] show ?thesis by auto
qed

lemma process_then_replay_witness:
  "\<exists>e i a w' e' i' a' w''.
     process demo_env keyed_payload demo_world = (Inr (e, Some i, Some a, None, False), w') \<and>
     process demo_env reusing_payload w' = (Inr (e', Some i', Some a', None, True), w'') \<and>
     event_id e' = event_id e \<and> length (events (db w'')) = 1"
proof -
  obtain e i a w' where
    run: "process demo_env keyed_payload demo_world = (Inr (e, Some i, Some a, None, False), w')"
    and len: "length (events (db w')) = 1"
    using keyed_run by blast
  from process_then_replay [OF demo_env_ok(1,2) demo_peers_ok world_ok_demo payload_keys _ run] len
  show ?thesis using run by auto
qed

section \<open>The race for a key\<close>

text \<open>
  C14. The loser of a race returns the winner's result: when another session commits a
  result under the key between this session's look and its insertion, the insertion
  fails, the session is rolled back, and the first poll replays the committed result;
  no event, incident or action of its own is added.
\<close>

theorem race_lost:
  assumes "db w = saved w" "\<not> completed k w"
    and "wf_db (peers E (reads w) (saved w))"
    and "result_stored (peers E (reads w) (saved w)) k eid iid aid sk"
    and "ec_idempotency_key p = Some k" "k \<noteq> []"
  shows "\<exists>e i a w'. process E p w = (Inr (e, i, a, sk, True), w') \<and>
    event_id e = eid \<and> map_option incident_id i = iid \<and> map_option action_id a = aid \<and>
    events (db w') = events (peers E (reads w) (saved w)) \<and>
    incidents (db w') = incidents (peers E (reads w) (saved w)) \<and>
    actions (db w') = actions (peers E (reads w) (saved w))"
proof -
  let ?w = "peer_commit E w"
  have w: "db ?w = peers E (reads w) (saved w)" "saved ?w = db ?w"
    using assms(1) by (simp_all add: peer_commit_def)
  then have wf: "wf ?w" and stored: "result_stored (db ?w) k eid iid aid sk"
    using assms(3,4) by simp_all
  from result_stored_find [OF wf stored] obtain r where
    r: "find_idem k ?w = Some r" "r \<in> set (idems (db ?w))" "idem_key r = k" "idem_event_id r = Some eid"
      "idem_incident_id r = iid" "idem_action_id r = aid" "idem_skipped_reason r = sk"
    by blast
  have taken: "add_idem E k ?w = (Inl (IntegrityError ''idempotency_records.key''), ?w)"
    using r(2,3) by (auto simp: add_idem_def)
  have undone: "rollback ?w = ?w" using w(2) by (simp add: rollback_def)
  have "process E p w = wait_for_idempotent_result E k 100 ?w"
    using process_key [OF assms(5,6), of E w] assms(2) taken undone
    by (auto simp: process_with_idempotency_def completed_def)
  also have "\<dots> = replay_idempotent_record E r ?w"
    using r(1,4) wait_step [of E k 99 ?w] by (simp add: completed_def numeral_eq_Suc)
  finally have run: "process E p w = replay_idempotent_record E r ?w" .
  obtain e i a where res: "fst (replay_idempotent_record E r ?w) = Inr (e, i, a, sk, True)"
    "event_id e = eid" "map_option incident_id i = iid" "map_option action_id a = aid"
    using replay_result [OF wf r(2,4), of E] r(5-7) by blast
  have "process E p w = (Inr (e, i, a, sk, True), snd (replay_idempotent_record E r ?w))"
    using run res(1) by (simp add: prod_eq_iff)
  with res(2-4) w(1) replay_frame [of E r ?w] show ?thesis by fastforce
qed

text \<open>Another session that commits the keyed demo event at the first opportunity.\<close>

definition racing_env :: env where
  "racing_env = demo_env\<lparr>peers := (\<lambda>_ _. db (snd (process demo_env keyed_payload demo_world)))\<rparr>"

theorem race_lost_witness:
  "\<exists>e i a w'. process racing_env reusing_payload demo_world = (Inr (e, Some i, Some a, None, True), w') \<and>
     event_id e = 1 \<and> length (events (db w')) = 1"
proof -
  have "world_ok (snd (process demo_env keyed_payload demo_world))" by (simp add: world_ok_process)
  then have wf: "wf_db (peers racing_env (reads demo_world) (saved demo_world))"
    by (simp add: racing_env_def world_ok_def)
  have stored: "result_stored (peers racing_env (reads demo_world) (saved demo_world))
      ''intent-demo-0001'' 1 (Some 1) (Some 1) None"
    using keyed_stored by (simp add: racing_env_def)
  have fresh: "\<not> completed ''intent-demo-0001'' demo_world"
    by (simp add: completed_def find_idem_def)
  have len: "length (events (peers racing_env (reads demo_world) (saved demo_world))) = 1"
    using keyed_run by (auto simp: racing_env_def)
  from race_lost [OF _ fresh wf stored payload_keys(2)] len show ?thesis by auto
qed

end
