(* ===== verification/Database.thy ===== *)
theory Database
  imports Integrity
begin

text \<open>
  \<open>core/database.py\<close> and \<open>core/migrations.py\<close>: the unit of work that every entry point
  wraps around a service call (commit on return, rollback on an exception), its contract
  as an interface, and the schema migration with its version table.
\<close>

section \<open>Sessions\<close>

text \<open>A new session sees the committed database; closing one discards what is not committed.\<close>

definition open_session :: "world \<Rightarrow> world" where
  "open_session w = rollback w"

definition close_session :: "world \<Rightarrow> world" where
  "close_session w = rollback w"

definition session_scope :: "(world \<Rightarrow> 'a outcome) \<Rightarrow> world \<Rightarrow> 'a outcome" where
  "session_scope body w =
     (case body (open_session w) of
        (Inr x, w1) \<Rightarrow> (Inr x, close_session (commit w1))
      | (Inl e, w1) \<Rightarrow> (Inl e, close_session (rollback w1)))"

section \<open>Interface: a unit of work\<close>

text \<open>
  What a caller of a transactional operation relies on: on success exactly the work of
  the body is stored, on an exception the committed database is the one before.
\<close>

locale unit_of_work =
  fixes run :: "(world \<Rightarrow> 'a outcome) \<Rightarrow> world \<Rightarrow> 'a outcome"
  assumes run_result: "fst (run body w) = fst (body (rollback w))"
    and run_commits: "fst (body (rollback w)) = Inr x \<Longrightarrow>
      db (snd (run body w)) = db (snd (body (rollback w))) \<and>
      saved (snd (run body w)) = db (snd (body (rollback w)))"
    and run_restores: "fst (body (rollback w)) = Inl e \<Longrightarrow>
      db (snd (run body w)) = saved (snd (body (rollback w))) \<and>
      saved (snd (run body w)) = saved (snd (body (rollback w)))"
begin

lemma run_clean: "db (snd (run body w)) = saved (snd (run body w))"
  using run_commits [of body w] run_restores [of body w] by (cases "fst (body (rollback w))") auto

lemma run_saved:
  "saved (snd (run body w)) =
     (case fst (body (rollback w)) of
        Inl e \<Rightarrow> saved (snd (body (rollback w))) | Inr x \<Rightarrow> db (snd (body (rollback w))))"
  using run_commits [of body w] run_restores [of body w] by (cases "fst (body (rollback w))") auto

text \<open>A body that does not commit by itself is atomic.\<close>

lemma run_atomic:
  assumes "saved (snd (body (rollback w))) = saved w" and "fst (run body w) = Inl e"
  shows "saved (snd (run body w)) = saved w"
  using assms run_result [of body w] run_restores [of body w] by simp

text \<open>
  An invariant of the database that the body keeps when it returns, and never breaks in
  what is committed, is kept by the unit of work: a body that raises may leave the session
  in any state.
\<close>

lemma run_invariant:
  assumes "\<And>v. I (db v) \<Longrightarrow> I (saved v) \<Longrightarrow>
      I (saved (snd (body v))) \<and> (\<forall>x. fst (body v) = Inr x \<longrightarrow> I (db (snd (body v))))"
    and "I (saved w)"
  shows "I (db (snd (run body w))) \<and> I (saved (snd (run body w)))"
proof -
  have "I (saved (snd (body (rollback w)))) \<and>
      (\<forall>x. fst (body (rollback w)) = Inr x \<longrightarrow> I (db (snd (body (rollback w)))))"
    using assms(2) by (intro assms(1)) simp_all
  then show ?thesis using run_saved run_clean by (simp split: sum.split)
qed

lemma run_world_ok:
  assumes "\<And>v. world_ok v \<Longrightarrow> world_ok (snd (body v))" and "world_ok w"
  shows "world_ok (snd (run body w))"
  using run_invariant [of wf_db body w] assms by (auto simp: world_ok_def)

end

interpretation scope: unit_of_work session_scope
  by unfold_locales
    (auto simp: session_scope_def open_session_def close_session_def split_beta split: sum.split)

section \<open>Schema migration\<close>

text \<open>
  The engine's schema as the migration sees it: the columns of each table, the type and
  default of each column that an \<open>ALTER TABLE\<close> of the program added, and the single row
  of the table \<open>schema_versions\<close> (\<open>None\<close> when the table or the row is missing; the outer
  option is the table). Names are in lower case, as the program writes them. Creating and
  altering tables commits at once, and SQLite accepts an \<open>ALTER TABLE\<close> that adds a column
  the table does not have, of any type, that may be null or has a constant default.
\<close>

record schema =
  table_columns :: "string \<rightharpoonup> string list"
  altered_columns :: "string \<times> string \<rightharpoonup> string"
  version_table :: "int option option"

definition ensure_table :: "schema \<Rightarrow> schema" where
  "ensure_table s =
     (let s1 = (if version_table s = None then s\<lparr>version_table := Some None\<rparr> else s)
      in if version_table s1 = Some None then s1\<lparr>version_table := Some (Some 0)\<rparr> else s1)"

definition current :: "schema \<Rightarrow> exn + int" where
  "current s =
     (case version_table s of
        Some (Some v) \<Rightarrow> Inr v
      | Some None \<Rightarrow> Inl (OtherError ''NoResultFound'')
      | None \<Rightarrow> Inl (OtherError ''OperationalError''))"

definition set_current :: "int \<Rightarrow> schema \<Rightarrow> schema" where
  "set_current v s =
     (case version_table s of Some (Some _) \<Rightarrow> s\<lparr>version_table := Some (Some v)\<rparr> | _ \<Rightarrow> s)"

definition add_column_if_missing :: "string \<Rightarrow> string \<Rightarrow> string \<Rightarrow> schema \<Rightarrow> schema" where
  "add_column_if_missing table column ddl s =
     (case table_columns s table of
        None \<Rightarrow> s
      | Some cols \<Rightarrow>
          if column \<in> set cols then s
          else s\<lparr>table_columns := (table_columns s)(table \<mapsto> cols @ [column]),
                 altered_columns := (altered_columns s)((table, column) \<mapsto> ddl)\<rparr>)"

definition upgrade_to_1 :: "schema \<Rightarrow> schema" where
  "upgrade_to_1 s =
     add_column_if_missing ''actions'' ''leased_at'' ''DATETIME''
       (add_column_if_missing ''actions'' ''lease_id'' ''VARCHAR(80)''
         (add_column_if_missing ''actions'' ''next_attempt_at'' ''DATETIME''
           (add_column_if_missing ''operational_events'' ''correlation_id''
              (''VARCHAR(80) DEFAULT '' @ [CHR 0x27, CHR 0x27]) s)))"

definition run_migrations :: "schema \<Rightarrow> (exn + unit) \<times> schema" where
  "run_migrations s =
     (let s1 = ensure_table s
      in case current s1 of
           Inl e \<Rightarrow> (Inl e, s1)
         | Inr v \<Rightarrow> if v < 1 then (Inr (), set_current 1 (upgrade_to_1 s1)) else (Inr (), s1))"

text \<open>What version 1 adds to a table.\<close>

definition added_columns :: "string \<Rightarrow> string list" where
  "added_columns t =
     (if t = ''actions'' then [''next_attempt_at'', ''lease_id'', ''leased_at'']
      else if t = ''operational_events'' then [''correlation_id''] else [])"

definition added_ddl :: "string \<Rightarrow> string" where
  "added_ddl c =
     (if c = ''correlation_id'' then ''VARCHAR(80) DEFAULT '' @ [CHR 0x27, CHR 0x27]
      else if c = ''lease_id'' then ''VARCHAR(80)'' else ''DATETIME'')"

lemma add_column_version [simp]: "version_table (add_column_if_missing t c ddl s) = version_table s"
  by (simp add: add_column_if_missing_def split: option.split)

lemma add_column_columns:
  "table_columns (add_column_if_missing t c ddl s) u =
     (if u = t then map_option (\<lambda>cols. if c \<in> set cols then cols else cols @ [c]) (table_columns s t)
      else table_columns s u)"
  by (auto simp: add_column_if_missing_def split: option.split)

text \<open>A column that an existing table lacks.\<close>

definition missing :: "schema \<Rightarrow> string \<Rightarrow> string \<Rightarrow> bool" where
  "missing s t c \<longleftrightarrow> (case table_columns s t of None \<Rightarrow> False | Some cols \<Rightarrow> c \<notin> set cols)"

lemma add_column_missing:
  "missing (add_column_if_missing t c ddl s) u d \<longleftrightarrow> missing s u d \<and> (u, d) \<noteq> (t, c)"
  by (auto simp: missing_def add_column_columns split: option.split)

lemma add_column_altered:
  "altered_columns (add_column_if_missing t c ddl s) (u, d) =
     (if missing s t c \<and> u = t \<and> d = c then Some ddl else altered_columns s (u, d))"
  by (auto simp: missing_def add_column_if_missing_def split: option.split)

lemma upgrade_columns:
  "table_columns (upgrade_to_1 s) t =
     map_option (\<lambda>cols. cols @ filter (\<lambda>c. c \<notin> set cols) (added_columns t)) (table_columns s t)"
  by (cases "t = ''actions''"; cases "t = ''operational_events''"; cases "table_columns s t")
    (simp_all add: upgrade_to_1_def add_column_columns added_columns_def)

lemma upgrade_altered:
  "altered_columns (upgrade_to_1 s) (t, c) =
     (if missing s t c \<and> c \<in> set (added_columns t) then Some (added_ddl c) else altered_columns s (t, c))"
  by (cases "t = ''actions''"; cases "t = ''operational_events''")
    (auto simp: upgrade_to_1_def add_column_altered add_column_missing added_columns_def added_ddl_def)

lemma upgrade_version [simp]: "version_table (upgrade_to_1 s) = version_table s"
  by (simp add: upgrade_to_1_def)

lemma ensure_table_version:
  "version_table (ensure_table s) = Some (Some (case version_table s of Some (Some v) \<Rightarrow> v | _ \<Rightarrow> 0))"
  by (auto simp: ensure_table_def Let_def split: option.splits)

lemma ensure_table_columns [simp]:
  "table_columns (ensure_table s) = table_columns s" "altered_columns (ensure_table s) = altered_columns s"
  "missing (ensure_table s) t c = missing s t c"
  by (simp_all add: ensure_table_def missing_def Let_def)

lemma run_migrations_eq:
  "run_migrations s =
     (Inr (), if (case version_table s of Some (Some v) \<Rightarrow> v | _ \<Rightarrow> 0) < 1
              then set_current 1 (upgrade_to_1 (ensure_table s)) else ensure_table s)"
  by (simp add: run_migrations_def current_def ensure_table_version Let_def)

lemma set_current_simps [simp]:
  "table_columns (set_current v s) = table_columns s" "altered_columns (set_current v s) = altered_columns s"
  "version_table s = Some (Some u) \<Longrightarrow> version_table (set_current v s) = Some (Some v)"
  by (simp_all add: set_current_def split: option.split)

definition schema_version :: "schema \<Rightarrow> int" where
  "schema_version s = (case version_table s of Some (Some v) \<Rightarrow> v | _ \<Rightarrow> 0)"

text \<open>
  C30. The migration succeeds from every schema, versioned or not; afterwards the version is
  at least 1, every table kept its columns in place and, when the schema was older than
  version 1, gained exactly the missing ones, with the types and defaults of version 1, no
  table appeared or vanished, and a second migration changes nothing.
\<close>

theorem migration_complete:
  "\<exists>s'. run_migrations s = (Inr (), s') \<and> version_table s' = Some (Some (max 1 (schema_version s))) \<and>
     table_columns s' = (\<lambda>t. map_option
       (\<lambda>cols. cols @ (if schema_version s < 1 then filter (\<lambda>c. c \<notin> set cols) (added_columns t) else []))
       (table_columns s t)) \<and>
     altered_columns s' = (\<lambda>(t, c).
       if schema_version s < 1 \<and> missing s t c \<and> c \<in> set (added_columns t) then Some (added_ddl c)
       else altered_columns s (t, c)) \<and>
     run_migrations s' = (Inr (), s')"
proof -
  let ?s' = "snd (run_migrations s)"
  have ver: "version_table ?s' = Some (Some (max 1 (schema_version s)))"
    by (auto simp: run_migrations_eq ensure_table_version schema_version_def)
  have "ensure_table ?s' = ?s'" using ver by (simp add: ensure_table_def)
  then have again: "run_migrations ?s' = (Inr (), ?s')"
    using ver by (simp add: run_migrations_eq [of ?s'])
  have cols: "table_columns ?s' t = map_option
       (\<lambda>cols. cols @ (if schema_version s < 1 then filter (\<lambda>c. c \<notin> set cols) (added_columns t) else []))
       (table_columns s t)" for t
    by (auto simp: run_migrations_eq schema_version_def upgrade_columns option.map_ident)
  have "altered_columns ?s' (t, c) = (if schema_version s < 1 \<and> missing s t c \<and> c \<in> set (added_columns t)
      then Some (added_ddl c) else altered_columns s (t, c))" for t c
    by (auto simp: run_migrations_eq schema_version_def upgrade_altered)
  then have altered: "altered_columns ?s' = (\<lambda>(t, c).
       if schema_version s < 1 \<and> missing s t c \<and> c \<in> set (added_columns t) then Some (added_ddl c)
       else altered_columns s (t, c))" by (simp add: fun_eq_iff)
  have "run_migrations s = (Inr (), ?s')" by (simp add: run_migrations_eq)
  with ver again cols altered show ?thesis by blast
qed

end
