(* ===== verification/Actions.thy ===== *)
theory Actions
  imports Processor Database
begin

text \<open>
  \<open>services/actions.py\<close>: one attempt of an action against the transport, the retry loop,
  the worker that leases and runs the due actions, and what an attempt and the retry loop
  guarantee: the life cycle of an action, the bound on its attempts and the verdict of the
  built-in transport. What a round of the worker guarantees is in \<open>Worker\<close>.
\<close>

section \<open>Transports\<close>

record attempt_result =
  succeeded :: bool
  result_detail :: string

text \<open>A transport is a callable that returns a result or raises.\<close>

type_synonym transport = "action \<Rightarrow> rat \<Rightarrow> exn + attempt_result"

definition default_transport :: transport where
  "default_transport a timeout_seconds =
     (if timeout_seconds \<le> 0 then Inl (ActionTimeoutError ''timeout must be positive'')
      else if str_in ''permanent_failure'' (action_detail a)
      then Inr \<lparr>succeeded = False, result_detail = ''synthetic permanent failure''\<rparr>
      else if (str_in ''fail_once'' (action_detail a) \<or> str_in ''transient_then_success'' (action_detail a)) \<and>
              action_attempts a \<le> 1
      then Inr \<lparr>succeeded = False, result_detail = ''synthetic transient failure''\<rparr>
      else Inr \<lparr>succeeded = True,
                result_detail = ''synthetic '' @ action_action_type a @ '' completed''\<rparr>)"

section \<open>One attempt\<close>

text \<open>The \<open>try\<close> statement: which exceptions count as a failed attempt.\<close>

definition attempt_outcome :: "exn + attempt_result \<Rightarrow> exn + bool \<times> string" where
  "attempt_outcome r =
     (case r of
        Inl (TimeoutError msg) \<Rightarrow> Inr (False, ''timeout: '' @ msg)
      | Inl (ActionTimeoutError msg) \<Rightarrow> Inr (False, msg)
      | Inl e \<Rightarrow> Inl e
      | Inr res \<Rightarrow> Inr (succeeded res, result_detail res))"

definition live :: "action \<Rightarrow> bool" where
  "live a \<longleftrightarrow> action_state a \<notin> action_state_value ` {ActionState_SUCCEEDED, ActionState_FAILED, ActionState_SKIPPED}"

text \<open>The assignments after the attempt; \<open>a\<close> already counts it.\<close>

definition settle :: "int \<Rightarrow> rat \<Rightarrow> instant \<Rightarrow> bool \<times> string \<Rightarrow> action \<Rightarrow> action" where
  "settle max_attempts retry_delay_seconds now out a =
     (let a1 =
        (if fst out
         then a\<lparr>action_state := action_state_value ActionState_SUCCEEDED, action_detail := snd out\<rparr>
         else if str_in ''permanent_failure'' (action_detail a) \<or> max_attempts \<le> action_attempts a
         then a\<lparr>action_state := action_state_value ActionState_FAILED, action_detail := snd out\<rparr>
         else a\<lparr>action_state := action_state_value ActionState_RETRY,
                action_next_attempt_at := Some (now + seconds_float retry_delay_seconds)\<rparr>)
      in a1\<lparr>action_lease_id := None, action_leased_at := None, action_updated_at := now\<rparr>)"

definition execution_message :: "action \<Rightarrow> string" where
  "execution_message a =
     action_action_type a @ '' finished as '' @ action_state a @ '' after '' @
     str_int (action_attempts a) @ '' attempts''"

definition execute_action_once ::
  "env \<Rightarrow> int \<Rightarrow> rat \<Rightarrow> rat \<Rightarrow> transport \<Rightarrow> instant option \<Rightarrow> action \<Rightarrow> world \<Rightarrow> action outcome" where
  "execute_action_once E max_attempts timeout_seconds retry_delay_seconds transport now a w =
     (if max_attempts < 1 then (Inl (ValueError ''max_attempts must be at least 1''), w)
      else if \<not> live a then (Inr a, w)
      else let (t, w1) = now_or E now w; a1 = a\<lparr>action_attempts := action_attempts a + 1\<rparr>
           in case attempt_outcome (transport a1 timeout_seconds) of
                Inl e \<Rightarrow> (Inl e, put_action a1 w1)
              | Inr out \<Rightarrow>
                  let a2 = settle max_attempts retry_delay_seconds t out a1
                  in (Inr a2, add_audit E ''action_executed'' ''action'' (action_id a2)
                                (execution_message a2) (put_action a2 w1)))"

section \<open>The retry loop\<close>

text \<open>
  \<open>while action.state not in {SUCCEEDED, FAILED}\<close>: a call that does not return is \<open>None\<close>.
\<close>

partial_function (option) retry_loop ::
  "env \<Rightarrow> int \<Rightarrow> rat \<Rightarrow> transport \<Rightarrow> action \<Rightarrow> world \<Rightarrow> (action outcome) option" where
  "retry_loop E max_attempts timeout_seconds transport a w =
     (if action_state a \<in> action_state_value ` {ActionState_SUCCEEDED, ActionState_FAILED}
      then Some (Inr a, w)
      else case execute_action_once E max_attempts timeout_seconds 0 transport None a w of
             (Inl e, w1) \<Rightarrow> Some (Inl e, w1)
           | (Inr a1, w1) \<Rightarrow> retry_loop E max_attempts timeout_seconds transport a1 w1)"

declare retry_loop.simps [code]

definition execute_action_with_retry ::
  "env \<Rightarrow> int \<Rightarrow> rat \<Rightarrow> transport \<Rightarrow> action \<Rightarrow> world \<Rightarrow> (action outcome) option" where
  "execute_action_with_retry E max_attempts timeout_seconds transport a w =
     (if max_attempts < 1 then Some (Inl (ValueError ''max_attempts must be at least 1''), w)
      else retry_loop E max_attempts timeout_seconds transport a w)"

section \<open>The worker\<close>

record action_stats =
  processed :: int
  stats_succeeded :: int
  stats_failed :: int
  stats_retried :: int

text \<open>
  The \<open>WHERE\<close> clause: SQL's three-valued comparison with a \<open>NULL\<close> is not true, so a row
  with a lease but no lease time is never selected.
\<close>

definition is_due :: "instant \<Rightarrow> int \<Rightarrow> action \<Rightarrow> bool" where
  "is_due now lease_seconds a \<longleftrightarrow>
     in_backlog a \<and>
     (case action_next_attempt_at a of None \<Rightarrow> True | Some t \<Rightarrow> t \<le> now) \<and>
     (action_lease_id a = None \<or>
      (case action_leased_at a of None \<Rightarrow> False | Some t \<Rightarrow> t \<le> now - seconds lease_seconds))"

text \<open>\<open>ORDER BY next_attempt_at ASC NULLS FIRST, created_at ASC\<close>\<close>

definition due_order :: "action \<Rightarrow> instant option \<times> instant" where
  "due_order a = (action_next_attempt_at a, action_created_at a)"

definition due_actions :: "env \<Rightarrow> nat \<Rightarrow> int \<Rightarrow> instant \<Rightarrow> world \<Rightarrow> action list" where
  "due_actions E limit lease_seconds now w =
     take limit (sort_key due_order (filter (is_due now lease_seconds) (scan_actions E (actions (db w)))))"

definition lease :: "string \<Rightarrow> instant \<Rightarrow> action \<Rightarrow> action" where
  "lease lease_id now a = a\<lparr>action_lease_id := Some lease_id, action_leased_at := Some now\<rparr>"

definition lease_and_execute ::
  "env \<Rightarrow> int \<Rightarrow> rat \<Rightarrow> rat \<Rightarrow> transport \<Rightarrow> string \<Rightarrow> instant \<Rightarrow> action \<Rightarrow> world \<Rightarrow> action outcome" where
  "lease_and_execute E max_attempts timeout_seconds retry_delay_seconds transport lease_id now a w =
     (let a1 = lease lease_id now a
      in execute_action_once E max_attempts timeout_seconds retry_delay_seconds transport (Some now) a1
           (put_action a1 w))"

definition count_state :: "action_state \<Rightarrow> action list \<Rightarrow> int" where
  "count_state s as = int (length (filter (\<lambda>a. action_state a = action_state_value s) as))"

definition stats_of :: "action list \<Rightarrow> action_stats" where
  "stats_of as =
     \<lparr>processed = int (length as), stats_succeeded = count_state ActionState_SUCCEEDED as,
      stats_failed = count_state ActionState_FAILED as, stats_retried = count_state ActionState_RETRY as\<rparr>"

definition process_due_actions ::
  "env \<Rightarrow> nat \<Rightarrow> int \<Rightarrow> rat \<Rightarrow> rat \<Rightarrow> int \<Rightarrow> transport \<Rightarrow> instant option \<Rightarrow> world \<Rightarrow> action_stats outcome" where
  "process_due_actions E limit max_attempts timeout_seconds retry_delay_seconds lease_seconds transport now w =
     (let (t, w1) = now_or E now w;
          due = due_actions E limit lease_seconds t w1;
          (u, w2) = uuid4_hex E w1
      in case for_each (lease_and_execute E max_attempts timeout_seconds retry_delay_seconds transport
                          (''lease_'' @ u) t) due w2 of
           (Inl e, w3) \<Rightarrow> (Inl e, w3)
         | (Inr as, w3) \<Rightarrow> (Inr (stats_of as), w3))"

text \<open>\<open>ActionWorker\<close>: the parameters it fixes and its unit of work.\<close>

record action_worker =
  worker_max_attempts :: int
  worker_timeout_seconds :: rat
  worker_retry_delay_seconds :: rat
  worker_lease_seconds :: int

definition in_worker_session :: "(world \<Rightarrow> 'a outcome) \<Rightarrow> world \<Rightarrow> 'a outcome" where
  "in_worker_session body w =
     (case body (open_session w) of
        (Inr result, w1) \<Rightarrow> (Inr result, close_session (commit w1))
      | (Inl e, w1) \<Rightarrow> (Inl e, close_session (rollback w1)))"

definition run_once :: "env \<Rightarrow> action_worker \<Rightarrow> nat \<Rightarrow> instant option \<Rightarrow> world \<Rightarrow> action_stats outcome" where
  "run_once E wk limit now =
     in_worker_session
       (process_due_actions E limit (worker_max_attempts wk) (worker_timeout_seconds wk)
          (worker_retry_delay_seconds wk) (worker_lease_seconds wk) default_transport now)"

interpretation worker_scope: unit_of_work in_worker_session
  by unfold_locales
    (auto simp: in_worker_session_def open_session_def close_session_def split_beta split: sum.split)

section \<open>What an attempt changes\<close>

lemma live_iff:
  "live a \<longleftrightarrow> action_state a \<notin> {action_state_value ActionState_SUCCEEDED,
     action_state_value ActionState_FAILED, action_state_value ActionState_SKIPPED}"
  by (simp add: live_def)

lemma live_upd [simp]:
  "live (a\<lparr>action_attempts := n\<rparr>) = live a" "live (lease l t a) = live a"
  by (simp_all add: live_iff lease_def)

lemma in_backlog_live: "in_backlog a \<Longrightarrow> live a"
  by (auto simp: in_backlog_def live_iff)

lemma lease_simps [simp]:
  "action_id (lease l t a) = action_id a" "action_state (lease l t a) = action_state a"
  "action_attempts (lease l t a) = action_attempts a" "action_detail (lease l t a) = action_detail a"
  "action_incident_id (lease l t a) = action_incident_id a"
  "action_action_type (lease l t a) = action_action_type a"
  "action_next_attempt_at (lease l t a) = action_next_attempt_at a"
  "action_created_at (lease l t a) = action_created_at a"
  by (simp_all add: lease_def)

lemma settle_simps [simp]:
  "action_id (settle m d t out a) = action_id a"
  "action_incident_id (settle m d t out a) = action_incident_id a"
  "action_action_type (settle m d t out a) = action_action_type a"
  "action_attempts (settle m d t out a) = action_attempts a"
  "action_created_at (settle m d t out a) = action_created_at a"
  "action_lease_id (settle m d t out a) = None" "action_leased_at (settle m d t out a) = None"
  "action_updated_at (settle m d t out a) = t"
  by (simp_all add: settle_def Let_def)

definition verdict :: "int \<Rightarrow> bool \<times> string \<Rightarrow> action \<Rightarrow> action_state" where
  "verdict m out a =
     (if fst out then ActionState_SUCCEEDED
      else if str_in ''permanent_failure'' (action_detail a) \<or> m \<le> action_attempts a
      then ActionState_FAILED else ActionState_RETRY)"

lemma settle_state: "action_state (settle m d t out a) = action_state_value (verdict m out a)"
  by (simp add: settle_def verdict_def Let_def)

lemma verdict_alternatives:
  "verdict m out a \<in> {ActionState_SUCCEEDED, ActionState_FAILED, ActionState_RETRY}"
  by (simp add: verdict_def)

lemma settle_live:
  "live (settle m d t out a) \<longleftrightarrow> verdict m out a = ActionState_RETRY"
  using verdict_alternatives [of m out a] by (auto simp: settle_state live_iff)

lemma retry_below: "verdict m out a = ActionState_RETRY \<Longrightarrow> action_attempts a < m"
  by (simp add: verdict_def split: if_splits)

lemma settle_detail:
  "action_detail (settle m d t out a) =
     (if live (settle m d t out a) then action_detail a else snd out)"
  by (simp add: settle_def live_iff Let_def)

text \<open>A settled action forgets the lease it was run under.\<close>

lemma settle_lease:
  "settle m d t out ((lease l s a)\<lparr>action_attempts := n\<rparr>) = settle m d t out (a\<lparr>action_attempts := n\<rparr>)"
  by (simp add: settle_def lease_def Let_def)

lemma once_dead: "1 \<le> m \<Longrightarrow> \<not> live a \<Longrightarrow> execute_action_once E m ts d T now a w = (Inr a, w)"
  by (simp add: execute_action_once_def)

lemma once_raises:
  assumes "1 \<le> m" "live a" "attempt_outcome (T (a\<lparr>action_attempts := action_attempts a + 1\<rparr>) ts) = Inl e"
  shows "execute_action_once E m ts d T now a w =
    (Inl e, put_action (a\<lparr>action_attempts := action_attempts a + 1\<rparr>) (snd (now_or E now w)))"
  using assms by (simp add: execute_action_once_def split_beta)

lemma once_settles:
  assumes "1 \<le> m" "live a" "attempt_outcome (T (a\<lparr>action_attempts := action_attempts a + 1\<rparr>) ts) = Inr out"
    and "a2 = settle m d (fst (now_or E now w)) out (a\<lparr>action_attempts := action_attempts a + 1\<rparr>)"
  shows "execute_action_once E m ts d T now a w =
    (Inr a2, add_audit E ''action_executed'' ''action'' (action_id a) (execution_message a2)
      (put_action a2 (snd (now_or E now w))))"
  using assms by (simp add: execute_action_once_def split_beta Let_def)

lemma once_frame [simp]:
  "saved (snd (execute_action_once E m ts d T now a w)) = saved w"
  "assets (db (snd (execute_action_once E m ts d T now a w))) = assets (db w)"
  "rules (db (snd (execute_action_once E m ts d T now a w))) = rules (db w)"
  "events (db (snd (execute_action_once E m ts d T now a w))) = events (db w)"
  "incidents (db (snd (execute_action_once E m ts d T now a w))) = incidents (db w)"
  "idems (db (snd (execute_action_once E m ts d T now a w))) = idems (db w)"
  "jobs (db (snd (execute_action_once E m ts d T now a w))) = jobs (db w)"
  "checks (db (snd (execute_action_once E m ts d T now a w))) = checks (db w)"
  by (simp_all add: execute_action_once_def Let_def split_beta split: sum.split)

lemma wf_execute_once:
  assumes "ids_ok E" "wf w" "get_action w (action_id a) = Some old"
    and "action_incident_id a = action_incident_id old" "0 \<le> action_attempts a"
    and "action_state a \<in> range action_state_value"
  shows "wf (snd (execute_action_once E m ts d T now a w))"
proof -
  have put: "wf (put_action b (snd (now_or E now w)))"
    if "action_id b = action_id a" "action_incident_id b = action_incident_id a"
      "0 \<le> action_attempts b" "action_state b \<in> range action_state_value" for b
    using assms that by (intro wf_put_action [where old = old]) (simp_all add: get_action_def)
  show ?thesis
  proof (cases "1 \<le> m \<and> live a")
    case False
    then show ?thesis using assms(2) by (auto simp: execute_action_once_def)
  next
    case True
    then show ?thesis
      using put assms(1,5,6)
      by (cases "attempt_outcome (T (a\<lparr>action_attempts := action_attempts a + 1\<rparr>) ts)")
        (auto simp: once_raises once_settles settle_state intro!: wf_add_audit)
  qed
qed

section \<open>The life cycle of an action\<close>

text \<open>
  The abstract machine: state and number of attempts. Only queued and retry actions move,
  each move counts one attempt, and a retry is allowed below the limit only.
\<close>

inductive action_step :: "int \<Rightarrow> action_state \<times> int \<Rightarrow> action_state \<times> int \<Rightarrow> bool" for m :: int where
  succeed: "s \<in> {ActionState_QUEUED, ActionState_RETRY} \<Longrightarrow> action_step m (s, n) (ActionState_SUCCEEDED, n + 1)"
| give_up: "s \<in> {ActionState_QUEUED, ActionState_RETRY} \<Longrightarrow> action_step m (s, n) (ActionState_FAILED, n + 1)"
| retry_later: "s \<in> {ActionState_QUEUED, ActionState_RETRY} \<Longrightarrow> n + 1 < m \<Longrightarrow>
    action_step m (s, n) (ActionState_RETRY, n + 1)"

inductive_simps action_step_iff: "action_step m (s, n) (s', n')"

definition action_rank :: "int \<Rightarrow> action_state \<times> int \<Rightarrow> nat" where
  "action_rank m x = (if fst x \<in> {ActionState_QUEUED, ActionState_RETRY} then 1 + nat (m - snd x) else 0)"

interpretation action_life: ranked_machine "action_step m" "action_rank m" for m
  by unfold_locales (auto simp: action_rank_def elim!: action_step.cases)

lemma live_value [simp]:
  "action_state a = action_state_value s \<Longrightarrow> live a \<longleftrightarrow> s \<in> {ActionState_QUEUED, ActionState_RETRY}"
  by (cases s) (simp_all add: live_iff)

text \<open>
  C16. An attempt refines the abstract life cycle: whatever the transport does, a call of
  \<open>execute_action_once\<close> that returns either found a finished action and did nothing, or
  made one step of the machine and stored exactly that row, with one more audit entry;
  and a run of the machine has at most \<open>max(1, 1 + max_attempts - attempts)\<close> steps.
\<close>

theorem attempt_refines_life_cycle:
  assumes "action_state a = action_state_value s" "get_action w (action_id a) \<noteq> None"
    and "execute_action_once E m ts d T now a w = (Inr a', w')"
  shows "(s \<notin> {ActionState_QUEUED, ActionState_RETRY} \<and> a' = a \<and> w' = w \<or>
      (\<exists>s'. action_state a' = action_state_value s' \<and>
         action_step m (s, action_attempts a) (s', action_attempts a') \<and>
         actions (db w') = put_row action_id a' (actions (db w)) \<and>
         map audit_event_type (audits (db w')) = map audit_event_type (audits (db w)) @ [''action_executed''])) \<and>
    (\<forall>n t. (action_step m ^^ n) (s, action_attempts a) t \<longrightarrow> int n \<le> 1 + max 0 (m - action_attempts a))"
proof -
  have bound: "int n \<le> 1 + max 0 (m - action_attempts a)"
    if "(action_step m ^^ n) (s, action_attempts a) t" for n t
    using action_life.run_bounded [OF that] by (auto simp: action_rank_def split: if_splits)
  have m: "1 \<le> m" using assms(3) by (auto simp: execute_action_once_def split: if_splits)
  show ?thesis
  proof (cases "live a")
    case False
    then show ?thesis using bound assms once_dead [OF m False] by auto
  next
    case True
    let ?a1 = "a\<lparr>action_attempts := action_attempts a + 1\<rparr>"
    obtain out where out: "attempt_outcome (T ?a1 ts) = Inr out"
      using assms(3) once_raises [OF m True, of T ts] by (cases "attempt_outcome (T ?a1 ts)") auto
    from once_settles [where T = T and ts = ts and a = a, OF m True out refl] assms(3)
    have a': "a' = settle m d (fst (now_or E now w)) out ?a1"
      and w': "actions (db w') = put_row action_id a' (actions (db w))"
        "map audit_event_type (audits (db w')) = map audit_event_type (audits (db w)) @ [''action_executed'']"
      by auto
    have "s \<in> {ActionState_QUEUED, ActionState_RETRY}" using True assms(1) by simp
    then have "\<exists>s'. action_state a' = action_state_value s' \<and>
        action_step m (s, action_attempts a) (s', action_attempts a')"
      using verdict_alternatives [of m out ?a1] retry_below [of m out ?a1]
      unfolding a' settle_state by (intro exI [of _ "verdict m out ?a1"]) (auto simp: action_step_iff)
    with bound w' show ?thesis by blast
  qed
qed

section \<open>The retry loop returns\<close>

text \<open>A transport all of whose exceptions the code handles.\<close>

definition handled :: "transport \<Rightarrow> bool" where
  "handled T \<longleftrightarrow> (\<forall>a ts. \<exists>out. attempt_outcome (T a ts) = Inr out)"

lemma default_transport_handled [simp]: "handled default_transport"
proof -
  have "\<exists>x y. attempt_outcome (default_transport a ts) = Inr (x, y)" for a ts
    unfolding default_transport_def attempt_outcome_def by (simp add: ex_bool_eq)
  then show ?thesis by (auto simp: handled_def)
qed

lemma retry_loop_done:
  "action_state a \<in> action_state_value ` {ActionState_SUCCEEDED, ActionState_FAILED} \<Longrightarrow>
   retry_loop E m ts T a w = Some (Inr a, w)"
  by (simp add: retry_loop.simps)

lemma retry_loop_step:
  assumes "1 \<le> m" "live a" "attempt_outcome (T (a\<lparr>action_attempts := action_attempts a + 1\<rparr>) ts) = Inr out"
    and "a2 = settle m 0 (clock E (reads w)) out (a\<lparr>action_attempts := action_attempts a + 1\<rparr>)"
  shows "retry_loop E m ts T a w = retry_loop E m ts T a2
    (add_audit E ''action_executed'' ''action'' (action_id a) (execution_message a2)
      (put_action a2 (snd (now_utc E w))))"
proof -
  have "action_state a \<notin> action_state_value ` {ActionState_SUCCEEDED, ActionState_FAILED}"
    using assms(2) by (auto simp: live_def)
  moreover have "execute_action_once E m ts 0 T None a w =
      (Inr a2, add_audit E ''action_executed'' ''action'' (action_id a) (execution_message a2)
        (put_action a2 (snd (now_utc E w))))"
    using once_settles [where T = T and ts = ts and a = a, OF assms(1-3), of a2 0 E None w] assms(4) by simp
  ultimately show ?thesis by (subst retry_loop.simps) simp
qed

lemma retry_loop_returns:
  assumes "1 \<le> m" "handled T" "live a" "get_action w (action_id a) \<noteq> None"
  shows "\<exists>a' w'. retry_loop E m ts T a w = Some (Inr a', w') \<and>
    action_state a' \<in> action_state_value ` {ActionState_SUCCEEDED, ActionState_FAILED} \<and>
    action_attempts a < action_attempts a' \<and> action_attempts a' \<le> max (action_attempts a + 1) m \<and>
    get_action w' = (get_action w)(action_id a \<mapsto> a') \<and> saved w' = saved w \<and>
    int (length (audits (db w'))) = int (length (audits (db w))) + (action_attempts a' - action_attempts a)"
  using assms(3,4)
proof (induction "nat (m - action_attempts a)" arbitrary: a w rule: less_induct)
  case less
  obtain out where out: "attempt_outcome (T (a\<lparr>action_attempts := action_attempts a + 1\<rparr>) ts) = Inr out"
    using assms(2) unfolding handled_def by blast
  define a2 where "a2 = settle m 0 (clock E (reads w)) out (a\<lparr>action_attempts := action_attempts a + 1\<rparr>)"
  define w2 where "w2 = add_audit E ''action_executed'' ''action'' (action_id a) (execution_message a2)
      (put_action a2 (snd (now_utc E w)))"
  have step: "retry_loop E m ts T a w = retry_loop E m ts T a2 w2"
    unfolding w2_def by (rule retry_loop_step [where T = T and ts = ts and a = a, OF assms(1) less.prems(1) out a2_def])
  have id: "action_id a2 = action_id a" and n: "action_attempts a2 = action_attempts a + 1"
    by (simp_all add: a2_def)
  have "get_action (put_action a2 w) (action_id a2) = Some a2"
    "action_id a2 \<noteq> k \<Longrightarrow> get_action (put_action a2 w) k = get_action w k" for k
    using action_store.get_put_same [of w a2] action_store.get_put_other [of a2 k w] less.prems(2) id
    by simp_all
  then have get: "get_action w2 = (get_action w)(action_id a \<mapsto> a2)"
    by (simp add: fun_eq_iff w2_def get_action_def id)
  have len: "length (audits (db w2)) = length (audits (db w)) + 1" "saved w2 = saved w"
    by (simp_all add: w2_def add_audit_def)
  show ?case
  proof (cases "live a2")
    case False
    then have fin: "action_state a2 \<in> action_state_value ` {ActionState_SUCCEEDED, ActionState_FAILED}"
      using verdict_alternatives [of m out "a\<lparr>action_attempts := action_attempts a + 1\<rparr>"]
      by (auto simp: a2_def settle_state settle_live)
    with step retry_loop_done [OF fin] get len n show ?thesis by auto
  next
    case True
    then have below: "action_attempts a + 1 < m" using retry_below by (fastforce simp: a2_def settle_live)
    have "get_action w2 (action_id a2) \<noteq> None" using get id by simp
    with less.hyps [of a2 w2] True below n
    obtain a' w' where IH: "retry_loop E m ts T a2 w2 = Some (Inr a', w')"
      "action_state a' \<in> action_state_value ` {ActionState_SUCCEEDED, ActionState_FAILED}"
      "action_attempts a2 < action_attempts a'" "action_attempts a' \<le> max (action_attempts a2 + 1) m"
      "get_action w' = (get_action w2)(action_id a2 \<mapsto> a')" "saved w' = saved w2"
      "int (length (audits (db w'))) = int (length (audits (db w2))) + (action_attempts a' - action_attempts a2)"
      by (auto simp: nat_less_iff)
    then have "get_action w' = (get_action w)(action_id a \<mapsto> a')" using get id by simp
    with IH step len n below show ?thesis by auto
  qed
qed

text \<open>
  C17. The retry loop returns for every queued or retry action and every transport whose
  exceptions are handled: it ends in \<open>succeeded\<close> or \<open>failed\<close> after at least one and at
  most \<open>max_attempts - attempts\<close> further attempts (one, if the limit is already reached),
  with one audit entry per attempt, changes no other action and commits nothing.
\<close>

theorem retry_terminates:
  assumes "1 \<le> m" "handled T" "in_backlog a" "get_action w (action_id a) \<noteq> None"
  shows "\<exists>a' w'. execute_action_with_retry E m ts T a w = Some (Inr a', w') \<and>
    action_state a' \<in> action_state_value ` {ActionState_SUCCEEDED, ActionState_FAILED} \<and>
    action_attempts a < action_attempts a' \<and> action_attempts a' \<le> max (action_attempts a + 1) m \<and>
    get_action w' = (get_action w)(action_id a \<mapsto> a') \<and> saved w' = saved w \<and>
    int (length (audits (db w'))) = int (length (audits (db w))) + (action_attempts a' - action_attempts a)"
  using retry_loop_returns [OF assms(1,2) in_backlog_live [OF assms(3)] assms(4)] assms(1)
  by (simp add: execute_action_with_retry_def)

text \<open>
  C18. On a skipped action the retry loop never returns: \<open>execute_action_once\<close> leaves such an
  action alone, and the loop waits for \<open>succeeded\<close> or \<open>failed\<close> only.
\<close>

theorem skipped_never_returns:
  assumes "1 \<le> m" "action_state a = action_state_value ActionState_SKIPPED"
  shows "execute_action_with_retry E m ts T a w = None"
proof -
  have "1 \<le> m' \<longrightarrow> action_state b \<noteq> action_state_value ActionState_SKIPPED"
    if returned: "retry_loop E' m' ts' T' b v = Some y" for E' m' ts' T' b v y
  proof (rule retry_loop.raw_induct [OF _ returned], goal_cases)
    case (1 loop E' m' ts' T' b v y)
    show ?case
    proof (intro impI notI)
      assume "1 \<le> m'" "action_state b = action_state_value ActionState_SKIPPED"
      then have "execute_action_once E' m' ts' 0 T' None b v = (Inr b, v)" by (simp add: once_dead)
      with 1 \<open>1 \<le> m'\<close> \<open>action_state b = _\<close> show False by auto
    qed
  qed
  with assms have "retry_loop E m ts T a w = None" by (cases "retry_loop E m ts T a w") auto
  with assms(1) show ?thesis by (simp add: execute_action_with_retry_def)
qed

text \<open>The demo action, executed for the first time.\<close>

lemma demo_get_action [simp]: "get_action demo_world1 (action_id demo_action) = Some demo_action"
  by (simp add: get_action_def)

lemma demo_action_backlog [simp]: "in_backlog demo_action"
  by (simp add: in_backlog_def demo_action_def)

theorem attempt_refines_life_cycle_witness:
  "\<exists>a' w'. execute_action_once demo_env 3 (1 / 5) 0 default_transport None demo_action demo_world1 = (Inr a', w') \<and>
     (\<exists>s'. action_state a' = action_state_value s' \<and> action_step 3 (ActionState_QUEUED, 0) (s', action_attempts a'))"
proof -
  have state: "action_state demo_action = action_state_value ActionState_QUEUED"
    and n: "action_attempts demo_action = 0" by (simp_all add: demo_action_def)
  obtain out where "attempt_outcome (default_transport
      (demo_action\<lparr>action_attempts := action_attempts demo_action + 1\<rparr>) (1 / 5)) = Inr out"
    using default_transport_handled unfolding handled_def by blast
  from once_settles [where T = default_transport and ts = "1 / 5" and a = demo_action,
      OF _ in_backlog_live [OF demo_action_backlog] this refl]
  obtain a' w' where run: "execute_action_once demo_env 3 (1 / 5) 0 default_transport None demo_action demo_world1 = (Inr a', w')"
    by force
  from attempt_refines_life_cycle [OF state _ run] show ?thesis using run n by auto
qed

theorem retry_terminates_witness:
  "\<exists>a' w'. execute_action_with_retry demo_env 3 (1 / 5) default_transport demo_action demo_world1 = Some (Inr a', w') \<and>
     action_attempts a' \<in> {1, 2, 3} \<and> saved w' = db demo_world"
proof -
  have "get_action demo_world1 (action_id demo_action) \<noteq> None" by simp
  from retry_terminates [OF _ default_transport_handled demo_action_backlog this, of 3 demo_env "1 / 5"]
  obtain a' w' where "execute_action_with_retry demo_env 3 (1 / 5) default_transport demo_action demo_world1 = Some (Inr a', w')"
    "action_attempts demo_action < action_attempts a'" "action_attempts a' \<le> max (action_attempts demo_action + 1) 3"
    "saved w' = saved demo_world1"
    by auto
  then show ?thesis by (auto simp: demo_action_def)
qed

theorem skipped_never_returns_witness:
  "execute_action_with_retry demo_env 3 (1 / 5) default_transport
     (demo_action\<lparr>action_state := action_state_value ActionState_SKIPPED\<rparr>) demo_world1 = None"
  using skipped_never_returns [of 3 "demo_action\<lparr>action_state := action_state_value ActionState_SKIPPED\<rparr>"]
  by simp

section \<open>The verdict of the built-in transport\<close>

definition fails_once :: "string \<Rightarrow> bool" where
  "fails_once detail \<longleftrightarrow> str_in ''fail_once'' detail \<or> str_in ''transient_then_success'' detail"

definition expected_verdict :: "int \<Rightarrow> rat \<Rightarrow> string \<Rightarrow> string \<Rightarrow> action_state \<times> int \<times> string" where
  "expected_verdict m ts ty detail =
     (if ts \<le> 0
      then (ActionState_FAILED, if str_in ''permanent_failure'' detail then 1 else m, ''timeout must be positive'')
      else if str_in ''permanent_failure'' detail then (ActionState_FAILED, 1, ''synthetic permanent failure'')
      else if fails_once detail \<and> m = 1 then (ActionState_FAILED, 1, ''synthetic transient failure'')
      else (ActionState_SUCCEEDED, if fails_once detail then 2 else 1, ''synthetic '' @ ty @ '' completed''))"

lemma default_outcome:
  "attempt_outcome (default_transport a ts) =
     Inr (if ts \<le> 0 then (False, ''timeout must be positive'')
          else if str_in ''permanent_failure'' (action_detail a) then (False, ''synthetic permanent failure'')
          else if fails_once (action_detail a) \<and> action_attempts a \<le> 1 then (False, ''synthetic transient failure'')
          else (True, ''synthetic '' @ action_action_type a @ '' completed''))"
  by (simp add: default_transport_def attempt_outcome_def fails_once_def)

text \<open>One round of the loop that ends it, and one that continues it.\<close>

lemma retry_loop_round:
  assumes "1 \<le> m" "live a" "attempt_outcome (T (a\<lparr>action_attempts := action_attempts a + 1\<rparr>) ts) = Inr out"
    and "b = settle m 0 (clock E (reads w)) out (a\<lparr>action_attempts := action_attempts a + 1\<rparr>)"
  shows "verdict m out (a\<lparr>action_attempts := action_attempts a + 1\<rparr>) \<noteq> ActionState_RETRY \<Longrightarrow>
      \<exists>w'. retry_loop E m ts T a w = Some (Inr b, w')"
    and "verdict m out (a\<lparr>action_attempts := action_attempts a + 1\<rparr>) = ActionState_RETRY \<Longrightarrow>
      live b \<and> (\<exists>w2. retry_loop E m ts T a w = retry_loop E m ts T b w2)"
proof -
  note step = retry_loop_step [where T = T and ts = ts and a = a, OF assms]
  show "\<exists>w'. retry_loop E m ts T a w = Some (Inr b, w')"
    if "verdict m out (a\<lparr>action_attempts := action_attempts a + 1\<rparr>) \<noteq> ActionState_RETRY"
    using that verdict_alternatives [of m out "a\<lparr>action_attempts := action_attempts a + 1\<rparr>"]
    unfolding step by (subst retry_loop_done) (auto simp: assms(4) settle_state)
  show "live b \<and> (\<exists>w2. retry_loop E m ts T a w = retry_loop E m ts T b w2)"
    if "verdict m out (a\<lparr>action_attempts := action_attempts a + 1\<rparr>) = ActionState_RETRY"
    using that step by (auto simp: assms(4) settle_live)
qed

lemma timeout_verdict:
  assumes "1 \<le> m" "ts \<le> 0" "live a" "action_attempts a < m" "\<not> str_in ''permanent_failure'' (action_detail a)"
  shows "\<exists>a' w'. retry_loop E m ts default_transport a w = Some (Inr a', w') \<and>
    action_state a' = action_state_value ActionState_FAILED \<and> action_attempts a' = m \<and>
    action_detail a' = ''timeout must be positive''"
  using assms(3-5)
proof (induction "nat (m - action_attempts a)" arbitrary: a w rule: less_induct)
  case less
  let ?a1 = "a\<lparr>action_attempts := action_attempts a + 1\<rparr>" and ?out = "(False, ''timeout must be positive'')"
  define b where "b = settle m 0 (clock E (reads w)) ?out ?a1"
  have out: "attempt_outcome (default_transport ?a1 ts) = Inr ?out"
    using assms(2) by (simp add: default_outcome)
  note round = retry_loop_round [where T = default_transport and ts = ts and a = a,
      OF assms(1) less.prems(1) out b_def]
  show ?case
  proof (cases "m \<le> action_attempts a + 1")
    case True
    then have "verdict m ?out ?a1 = ActionState_FAILED" by (simp add: verdict_def)
    with round(1) True less.prems show ?thesis
      by (auto simp: b_def settle_state settle_detail settle_live)
  next
    case False
    then have v: "verdict m ?out ?a1 = ActionState_RETRY" using less.prems(3) by (simp add: verdict_def)
    then obtain w2 where "live b" "retry_loop E m ts default_transport a w = retry_loop E m ts default_transport b w2"
      using round(2) by blast
    moreover have "action_attempts b = action_attempts a + 1" "action_detail b = action_detail a"
      using v by (simp_all add: b_def settle_detail settle_live)
    ultimately show ?thesis using less.hyps [of b w2] less.prems False by auto
  qed
qed

lemma default_verdict:
  assumes "1 \<le> m" "action_state a = action_state_value ActionState_QUEUED" "action_attempts a = 0"
  shows "\<exists>a' w'. execute_action_with_retry E m ts default_transport a w = Some (Inr a', w') \<and>
    (let (s, n, d) = expected_verdict m ts (action_action_type a) (action_detail a)
     in action_state a' = action_state_value s \<and> action_attempts a' = n \<and> action_detail a' = d)"
proof -
  let ?a1 = "a\<lparr>action_attempts := action_attempts a + 1\<rparr>"
  have live: "live a" using assms(2) by simp
  obtain out where out: "attempt_outcome (default_transport ?a1 ts) = Inr out"
    using default_transport_handled unfolding handled_def by blast
  define b where "b = settle m 0 (clock E (reads w)) out ?a1"
  note round = retry_loop_round [where T = default_transport and ts = ts and a = a, OF assms(1) live out b_def]
  note out' = out [unfolded default_outcome, simplified, symmetric]
  have loop: "execute_action_with_retry E m ts default_transport a w = retry_loop E m ts default_transport a w"
    using assms(1) by (simp add: execute_action_with_retry_def)
  show ?thesis
  proof (cases "verdict m out ?a1 = ActionState_RETRY")
    case False
    then obtain w' where run: "retry_loop E m ts default_transport a w = Some (Inr b, w')" using round(1) by blast
    have "let (s, n, d) = expected_verdict m ts (action_action_type a) (action_detail a)
        in action_state b = action_state_value s \<and> action_attempts b = n \<and> action_detail b = d"
      using False assms(1,3) out'
      by (auto simp: b_def settle_state settle_detail settle_live expected_verdict_def verdict_def split: if_splits)
    with run loop show ?thesis by auto
  next
    case True
    then have cases: "\<not> str_in ''permanent_failure'' (action_detail a)" "1 < m" "\<not> fst out"
      using assms(3) by (auto simp: verdict_def split: if_splits)
    show ?thesis
    proof (cases "ts \<le> 0")
      case True
      with timeout_verdict [OF assms(1) True live, of E w] cases assms(3) loop show ?thesis
        by (auto simp: expected_verdict_def)
    next
      case False
      then have once: "fails_once (action_detail a)"
        using cases out' assms(3) by (auto split: if_splits)
      obtain w2 where b: "live b" and step: "retry_loop E m ts default_transport a w = retry_loop E m ts default_transport b w2"
        using round(2) True by blast
      have same: "action_attempts b = 1" "action_detail b = action_detail a" "action_action_type b = action_action_type a"
        using True assms(3) by (simp_all add: b_def settle_detail settle_live)
      let ?b1 = "b\<lparr>action_attempts := action_attempts b + 1\<rparr>"
        and ?out = "(True, ''synthetic '' @ action_action_type a @ '' completed'')"
      have out2: "attempt_outcome (default_transport ?b1 ts) = Inr ?out"
        using False same cases by (simp add: default_outcome)
      have "\<exists>w'. retry_loop E m ts default_transport b w2 = Some (Inr (settle m 0 (clock E (reads w2)) ?out ?b1), w')"
        using retry_loop_round(1) [where T = default_transport and ts = ts and a = b, OF assms(1) b out2 refl]
        by (simp add: verdict_def)
      with step loop False once cases same show ?thesis
        by (auto simp: expected_verdict_def settle_state settle_detail settle_live verdict_def)
    qed
  qed
qed

text \<open>
  C19. With the built-in transport the retry loop's result on a fresh queued action is a
  function of its executor mode: a permanent failure fails after one attempt whatever the
  limit, a transient one succeeds at the second attempt (and fails if only one is
  allowed), any other mode succeeds at the first, and a timeout that is not positive
  exhausts the limit.
\<close>

theorem default_transport_verdict:
  assumes "1 \<le> m" "action_state a = action_state_value ActionState_QUEUED" "action_attempts a = 0"
  shows "\<exists>a' w'. execute_action_with_retry E m ts default_transport a w = Some (Inr a', w') \<and>
    (let (s, n, d) = expected_verdict m ts (action_action_type a) (action_detail a)
     in action_state a' = action_state_value s \<and> action_attempts a' = n \<and> action_detail a' = d)"
  by (rule default_verdict [OF assms])

theorem default_transport_verdict_witness:
  "\<exists>a' w'. execute_action_with_retry demo_env 3 (1 / 5) default_transport demo_action demo_world1 = Some (Inr a', w') \<and>
     action_state a' = action_state_value ActionState_SUCCEEDED \<and> action_attempts a' = 1 \<and>
     action_detail a' = ''synthetic create_ticket completed''"
proof -
  have "action_state demo_action = action_state_value ActionState_QUEUED" "action_attempts demo_action = 0"
    by (simp_all add: demo_action_def)
  from default_transport_verdict [OF _ this, of 3 demo_env "1 / 5" demo_world1] show ?thesis
    by (simp add: expected_verdict_def demo_action_def fails_once_def)
qed

end
