(* ===== verification/Worker.thy ===== *)
theory Worker
  imports Actions
begin

text \<open>
  What the action worker guarantees (\<open>process_due_actions\<close> and \<open>ActionWorker\<close> of
  \<open>services/actions.py\<close>): which actions it selects, what one round does to the queue row by
  row, that a failed round stores nothing, and that repeated rounds drain the queue.
\<close>

section \<open>Selection\<close>

lemma due_subset:
  assumes "scans_ok E" "a \<in> set (due_actions E limit lease_s now w)"
  shows "a \<in> set (actions (db w)) \<and> is_due now lease_s a"
  using assms(2) by (auto simp: due_actions_def scan_sets [OF assms(1)] dest: in_set_takeD)

lemma due_distinct:
  assumes "scans_ok E" "distinct (map key (actions (db w)))"
  shows "distinct (map key (due_actions E limit lease_s now w))"
proof -
  have "distinct (map key (sort_key due_order (filter (is_due now lease_s) (scan_actions E (actions (db w))))))"
  proof -
    have "distinct (map key (filter (is_due now lease_s) (scan_actions E (actions (db w)))))"
      using assms by (intro distinct_map_filter) (simp add: scan_distinct)
    then show ?thesis by (simp add: distinct_map)
  qed
  then show ?thesis unfolding due_actions_def take_map [symmetric] by (rule distinct_take)
qed

lemma due_is_due: "a \<in> set (due_actions E limit lease_s now w) \<Longrightarrow> is_due now lease_s a"
  by (auto simp: due_actions_def dest: in_set_takeD)

lemma due_live: "is_due now lease_s a \<Longrightarrow> live a"
  by (simp add: is_due_def in_backlog_live)

lemma wf_action_ids: "wf w \<Longrightarrow> distinct (map action_id (actions (db w)))"
  by (simp add: wf_db_def actions_ok_def)

lemma wf_get_action: "wf w \<Longrightarrow> a \<in> set (actions (db w)) \<Longrightarrow> get_action w (action_id a) = Some a"
  by (simp add: get_action_def find_row_unique wf_action_ids)

lemma sorted_take_drop:
  assumes "sorted (map f xs)" "a \<in> set (take n xs)" "b \<in> set (drop n xs)"
  shows "f a \<le> f b"
proof -
  have "sorted (map f (take n xs) @ map f (drop n xs))"
    using assms(1) by (simp only: map_append [symmetric] append_take_drop_id)
  with assms(2,3) show ?thesis by (simp add: sorted_append)
qed

lemma length_due:
  assumes "scans_ok E"
  shows "length (due_actions E limit lease_s now w) =
    min limit (length (filter (is_due now lease_s) (actions (db w))))"
proof -
  have "mset (filter (is_due now lease_s) (scan_actions E (actions (db w)))) =
      mset (filter (is_due now lease_s) (actions (db w)))"
    using assms by (simp add: scans_ok_def)
  then have "length (filter (is_due now lease_s) (scan_actions E (actions (db w)))) =
      length (filter (is_due now lease_s) (actions (db w)))" by (metis size_mset)
  then show ?thesis by (simp add: due_actions_def min.commute)
qed

text \<open>
  C22. Fair selection: the worker selects pairwise different due actions, as many as the
  limit allows, in the order of their due time (immediately due ones first) and then of
  their age, and no action that is due but left out comes before a selected one. An action
  another worker holds a fresh lease on is never selected.
\<close>

theorem selection_fair:
  assumes "scans_ok E" "wf w"
  shows "distinct (map action_id (due_actions E limit lease_s now w)) \<and>
    length (due_actions E limit lease_s now w) = min limit (length (filter (is_due now lease_s) (actions (db w)))) \<and>
    sorted (map due_order (due_actions E limit lease_s now w)) \<and>
    (\<forall>a \<in> set (due_actions E limit lease_s now w). a \<in> set (actions (db w)) \<and> in_backlog a \<and>
       (\<forall>t. action_next_attempt_at a = Some t \<longrightarrow> t \<le> now) \<and>
       (\<forall>l t. action_lease_id a = Some l \<longrightarrow> action_leased_at a = Some t \<longrightarrow> t + seconds lease_s \<le> now)) \<and>
    (\<forall>a \<in> set (due_actions E limit lease_s now w). \<forall>b \<in> set (actions (db w)).
       is_due now lease_s b \<longrightarrow> b \<notin> set (due_actions E limit lease_s now w) \<longrightarrow> due_order a \<le> due_order b)"
proof -
  let ?sorted = "sort_key due_order (filter (is_due now lease_s) (scan_actions E (actions (db w))))"
  have sorted: "sorted (map due_order ?sorted)" by simp
  have order: "due_order a \<le> due_order b"
    if a: "a \<in> set (take limit ?sorted)" and b: "b \<in> set (actions (db w))" "is_due now lease_s b"
      "b \<notin> set (take limit ?sorted)" for a b
  proof -
    have "b \<in> set ?sorted" using b scan_sets [OF assms(1)] by simp
    then have "b \<in> set (drop limit ?sorted)" using b(3) by (metis Un_iff append_take_drop_id set_append)
    with sorted a show ?thesis by (rule sorted_take_drop)
  qed
  have props: "in_backlog a \<and> (\<forall>t. action_next_attempt_at a = Some t \<longrightarrow> t \<le> now) \<and>
      (\<forall>l t. action_lease_id a = Some l \<longrightarrow> action_leased_at a = Some t \<longrightarrow> t + seconds lease_s \<le> now)"
    if "is_due now lease_s a" for a
    using that by (auto simp: is_due_def)
  have "sorted (map due_order (take limit ?sorted))"
    using sorted by (simp add: take_map [symmetric] sorted_wrt_take)
  then have srt: "sorted (map due_order (due_actions E limit lease_s now w))"
    by (simp only: due_actions_def)
  have rows: "\<forall>a \<in> set (due_actions E limit lease_s now w). a \<in> set (actions (db w)) \<and> in_backlog a \<and>
       (\<forall>t. action_next_attempt_at a = Some t \<longrightarrow> t \<le> now) \<and>
       (\<forall>l t. action_lease_id a = Some l \<longrightarrow> action_leased_at a = Some t \<longrightarrow> t + seconds lease_s \<le> now)"
  proof
    fix a assume "a \<in> set (due_actions E limit lease_s now w)"
    from due_subset [OF assms(1) this] have due: "a \<in> set (actions (db w))" "is_due now lease_s a" by simp_all
    from due(1) props [OF due(2)]
    show "a \<in> set (actions (db w)) \<and> in_backlog a \<and>
       (\<forall>t. action_next_attempt_at a = Some t \<longrightarrow> t \<le> now) \<and>
       (\<forall>l t. action_lease_id a = Some l \<longrightarrow> action_leased_at a = Some t \<longrightarrow> t + seconds lease_s \<le> now)"
      by (rule conjI)
  qed
  have ord: "\<forall>a \<in> set (due_actions E limit lease_s now w). \<forall>b \<in> set (actions (db w)).
       is_due now lease_s b \<longrightarrow> b \<notin> set (due_actions E limit lease_s now w) \<longrightarrow> due_order a \<le> due_order b"
    unfolding due_actions_def by (intro ballI impI order)
  show ?thesis
    by (intro conjI due_distinct [OF assms(1) wf_action_ids [OF assms(2)]] length_due [OF assms(1)] srt rows ord)
qed

theorem selection_fair_witness:
  "due_actions demo_env 100 60 1000000000100 demo_world1 = [demo_action] \<and>
   length (due_actions demo_env 100 60 1000000000100 demo_world1) \<le> 100 \<and>
   demo_action \<in> set (actions (db demo_world1))"
proof -
  have "wf demo_world1" using world_ok_demo1 by (simp add: world_ok_def)
  from selection_fair [OF demo_env_ok(2) this, of 100 60 1000000000100] show ?thesis
    by (auto simp: due_actions_def is_due_def demo_action_def in_backlog_def seconds_def)
qed

section \<open>One round, row by row\<close>

definition attempted ::
  "int \<Rightarrow> rat \<Rightarrow> rat \<Rightarrow> transport \<Rightarrow> string \<Rightarrow> instant \<Rightarrow> action \<Rightarrow> action" where
  "attempted m ts d T l now a =
     (let a1 = (lease l now a)\<lparr>action_attempts := action_attempts a + 1\<rparr>
      in settle m d now (projr (attempt_outcome (T a1 ts))) a1)"

lemma attempted_simps [simp]:
  "action_id (attempted m ts d T l now a) = action_id a"
  "action_incident_id (attempted m ts d T l now a) = action_incident_id a"
  "action_attempts (attempted m ts d T l now a) = action_attempts a + 1"
  "action_lease_id (attempted m ts d T l now a) = None"
  by (simp_all add: attempted_def Let_def)

lemma attempted_state:
  "\<exists>s \<in> {ActionState_SUCCEEDED, ActionState_FAILED, ActionState_RETRY}.
     action_state (attempted m ts d T l now a) = action_state_value s"
  unfolding attempted_def Let_def settle_state using verdict_alternatives by blast

lemma attempted_retry:
  assumes "in_backlog (attempted m ts d T l now a)"
  shows "action_attempts a + 1 < m"
    "action_next_attempt_at (attempted m ts d T l now a) = Some (now + seconds_float d)"
proof -
  let ?a1 = "(lease l now a)\<lparr>action_attempts := action_attempts a + 1\<rparr>"
  have live: "live (attempted m ts d T l now a)" by (rule in_backlog_live [OF assms])
  then have v: "verdict m (projr (attempt_outcome (T ?a1 ts))) ?a1 = ActionState_RETRY"
    by (simp add: attempted_def Let_def settle_live)
  from retry_below [OF v] show "action_attempts a + 1 < m" by simp
  from v show "action_next_attempt_at (attempted m ts d T l now a) = Some (now + seconds_float d)"
    by (auto simp: attempted_def Let_def settle_def verdict_def split: if_splits)
qed

lemma lease_and_execute_eq:
  assumes "1 \<le> m" "handled T" "live a" "get_action w (action_id a) = Some a"
  shows "lease_and_execute E m ts d T l now a w =
    (Inr (attempted m ts d T l now a),
     add_audit E ''action_executed'' ''action'' (action_id a) (execution_message (attempted m ts d T l now a))
       (put_action (attempted m ts d T l now a) (put_action (lease l now a) w)))"
proof -
  let ?a1 = "(lease l now a)\<lparr>action_attempts := action_attempts (lease l now a) + 1\<rparr>"
  obtain out where out: "attempt_outcome (T ?a1 ts) = Inr out"
    using assms(2) unfolding handled_def by blast
  have live: "live (lease l now a)" using assms(3) by simp
  from once_settles [where T = T and ts = ts and a = "lease l now a", OF assms(1) live out refl,
      of E d "Some now" "put_action (lease l now a) w"] out
  show ?thesis by (simp add: lease_and_execute_def attempted_def Let_def)
qed

interpretation due_sweep: row_sweep get_action action_id "lease_and_execute E m ts d T l now"
  "attempted m ts d T l now" "attempted m ts d T l now" "\<lambda>a. 1 \<le> m \<and> handled T \<and> live a"
  for E m ts d T l now
proof (unfold_locales, goal_cases)
  case (1 w a)
  then show ?case by (simp add: lease_and_execute_eq)
next
  case (2 w a)
  have "get_action (put_action (lease l now a) w) (action_id (attempted m ts d T l now a)) \<noteq> None"
    using 2 action_store.get_put_same [of w "lease l now a"] by simp
  from action_store.get_put_same [OF this] 2 show ?case
    by (simp add: lease_and_execute_eq get_action_def)
next
  case (3 w a k)
  then show ?case
    using action_store.get_put_other [of "attempted m ts d T l now a" k "put_action (lease l now a) w"]
      action_store.get_put_other [of "lease l now a" k w]
    by (simp add: lease_and_execute_eq get_action_def)
qed

definition round_row ::
  "action list \<Rightarrow> int \<Rightarrow> rat \<Rightarrow> rat \<Rightarrow> transport \<Rightarrow> string \<Rightarrow> instant \<Rightarrow> action \<Rightarrow> action" where
  "round_row due m ts d T l now a = (if a \<in> set due then attempted m ts d T l now a else a)"

lemma lease_and_execute_ids:
  "map action_id (actions (db (snd (lease_and_execute E m ts d T l now a w)))) = map action_id (actions (db w))"
  by (simp add: lease_and_execute_def execute_action_once_def Let_def split_beta split: sum.split)

lemma lease_and_execute_frame [simp]:
  "saved (snd (lease_and_execute E m ts d T l now a w)) = saved w"
  "assets (db (snd (lease_and_execute E m ts d T l now a w))) = assets (db w)"
  "rules (db (snd (lease_and_execute E m ts d T l now a w))) = rules (db w)"
  "events (db (snd (lease_and_execute E m ts d T l now a w))) = events (db w)"
  "incidents (db (snd (lease_and_execute E m ts d T l now a w))) = incidents (db w)"
  "idems (db (snd (lease_and_execute E m ts d T l now a w))) = idems (db w)"
  "jobs (db (snd (lease_and_execute E m ts d T l now a w))) = jobs (db w)"
  "checks (db (snd (lease_and_execute E m ts d T l now a w))) = checks (db w)"
  by (simp_all add: lease_and_execute_def Let_def)

lemma round_rows:
  assumes "distinct (map action_id (actions (db w)))" "distinct (map action_id due)"
    and "set due \<subseteq> set (actions (db w))" "\<forall>a \<in> set due. live a" "1 \<le> m" "handled T"
  shows "fst (for_each (lease_and_execute E m ts d T l now) due w) = Inr (map (attempted m ts d T l now) due)"
    and "actions (db (snd (for_each (lease_and_execute E m ts d T l now) due w))) =
      map (round_row due m ts d T l now) (actions (db w))"
proof -
  have stored: "get_action w (action_id a) = Some a" if "a \<in> set due" for a
    using find_row_unique [OF assms(1), of a] that assms(3) by (auto simp: get_action_def)
  have good: "1 \<le> m \<and> handled T \<and> live a" if "a \<in> set due" for a using assms(4-6) that by blast
  show "fst (for_each (lease_and_execute E m ts d T l now) due w) = Inr (map (attempted m ts d T l now) due)"
    using due_sweep.sweep_returns [OF assms(2) stored good] by blast
  let ?w' = "snd (for_each (lease_and_execute E m ts d T l now) due w)"
  have get: "get_action ?w' k = (case find_row action_id k due of
      Some r \<Rightarrow> Some (attempted m ts d T l now r) | None \<Rightarrow> get_action w k)" for k
    using due_sweep.sweep_get [OF assms(2) stored good] by blast
  have ids: "map action_id (actions (db ?w')) = map action_id (actions (db w))"
    by (rule for_each_invariant) (simp_all add: lease_and_execute_ids)
  show "actions (db ?w') = map (round_row due m ts d T l now) (actions (db w))"
  proof (rule rows_from_lookups [OF assms(1) ids])
    fix a assume a: "a \<in> set (actions (db w))"
    show "find_row action_id (action_id a) (actions (db ?w')) = Some (round_row due m ts d T l now a)"
    proof (cases "a \<in> set due")
      case True
      then show ?thesis
        using get [of "action_id a"] find_row_unique [OF assms(2) True] by (simp add: get_action_def round_row_def)
    next
      case False
      have "find_row action_id (action_id a) due = None"
      proof (rule ccontr)
        assume "find_row action_id (action_id a) due \<noteq> None"
        then obtain b where b: "b \<in> set due" "action_id b = action_id a" by (auto dest: find_row_SomeD)
        then have "b = a" using a assms(1,3) by (metis distinct_map inj_onD subsetD)
        with b False show False by simp
      qed
      then show ?thesis
        using get [of "action_id a"] find_row_unique [OF assms(1) a] False by (simp add: get_action_def round_row_def)
    qed
  qed
qed

section \<open>One round\<close>

lemma for_each_frames [simp]:
  "saved (snd (for_each (lease_and_execute E m ts d T l now) due w)) = saved w"
  "assets (db (snd (for_each (lease_and_execute E m ts d T l now) due w))) = assets (db w)"
  "rules (db (snd (for_each (lease_and_execute E m ts d T l now) due w))) = rules (db w)"
  "events (db (snd (for_each (lease_and_execute E m ts d T l now) due w))) = events (db w)"
  "incidents (db (snd (for_each (lease_and_execute E m ts d T l now) due w))) = incidents (db w)"
  "idems (db (snd (for_each (lease_and_execute E m ts d T l now) due w))) = idems (db w)"
  "jobs (db (snd (for_each (lease_and_execute E m ts d T l now) due w))) = jobs (db w)"
  "checks (db (snd (for_each (lease_and_execute E m ts d T l now) due w))) = checks (db w)"
  by (rule for_each_invariant, simp_all)+

text \<open>The time, the actions and the lease of a round.\<close>

definition round_time :: "env \<Rightarrow> instant option \<Rightarrow> world \<Rightarrow> instant" where
  "round_time E now w = fst (now_or E now w)"

definition round_lease :: "env \<Rightarrow> instant option \<Rightarrow> world \<Rightarrow> string" where
  "round_lease E now w = ''lease_'' @ uuid_hex E (reads (snd (now_or E now w)))"

definition round_due :: "env \<Rightarrow> nat \<Rightarrow> int \<Rightarrow> instant option \<Rightarrow> world \<Rightarrow> action list" where
  "round_due E limit lease_s now w = due_actions E limit lease_s (round_time E now w) w"

lemma round_due_facts:
  assumes "scans_ok E" "wf w"
  shows "distinct (map action_id (round_due E limit lease_s now w))"
    "set (round_due E limit lease_s now w) \<subseteq> set (actions (db w))"
    "\<forall>a \<in> set (round_due E limit lease_s now w). live a"
    "\<forall>a \<in> set (round_due E limit lease_s now w). in_backlog a"
  using due_distinct [OF assms(1) wf_action_ids [OF assms(2)]] due_subset [OF assms(1)] due_live due_is_due
  unfolding round_due_def by (blast, blast, blast, metis is_due_def)

lemma process_due_eq:
  fixes limit :: nat and lease_s :: int and now :: "instant option" and ts d :: rat
  assumes "scans_ok E" "wf w" "1 \<le> m" "handled T"
  defines "due \<equiv> round_due E limit lease_s now w"
    and "row \<equiv> attempted m ts d T (round_lease E now w) (round_time E now w)"
  shows "\<exists>w'. process_due_actions E limit m ts d lease_s T now w = (Inr (stats_of (map row due)), w') \<and>
    actions (db w') = map (\<lambda>a. if a \<in> set due then row a else a) (actions (db w))"
proof -
  let ?w2 = "snd (uuid4_hex E (snd (now_or E now w)))"
  have same: "actions (db ?w2) = actions (db w)" by (simp add: uuid4_hex_def)
  have due: "due_actions E limit lease_s (fst (now_or E now w)) (snd (now_or E now w)) = due"
    by (simp add: due_def round_due_def round_time_def due_actions_def)
  note facts = round_due_facts [OF assms(1,2), where limit = limit and lease_s = lease_s and now = now]
  note rows = round_rows [of ?w2 due m T E ts d "round_lease E now w" "round_time E now w",
      unfolded same, OF wf_action_ids [OF assms(2)] facts(1-3) [folded due_def] assms(3,4)]
  have "process_due_actions E limit m ts d lease_s T now w = (Inr (stats_of (map row due)),
      snd (for_each (lease_and_execute E m ts d T (round_lease E now w) (round_time E now w)) due ?w2))"
    using rows(1) by (simp add: process_due_actions_def split_beta due row_def round_lease_def
        round_time_def uuid4_hex_def Let_def split: sum.split)
  with rows(2) show ?thesis by (simp add: round_row_def row_def [symmetric])
qed

text \<open>How many rows a round takes out of the queue.\<close>

lemma filter_map_swap:
  assumes "distinct xs" "distinct ys" "set ys \<subseteq> set xs" "\<And>y. y \<in> set ys \<Longrightarrow> P y"
  shows "int (length (filter P (map (\<lambda>x. if x \<in> set ys then f x else x) xs))) =
    int (length (filter P xs)) - int (length (filter (\<lambda>y. \<not> P (f y)) ys))"
proof -
  let ?A = "{x \<in> set xs. P x}" and ?B = "{y \<in> set ys. \<not> P (f y)}"
  have "{x \<in> set xs. P (if x \<in> set ys then f x else x)} = ?A - ?B" using assms(3,4) by auto
  moreover have "card (?A - ?B) = card ?A - card ?B" using assms(3,4) by (intro card_Diff_subset) auto
  moreover have "card ?B \<le> card ?A" using assms(3,4) by (intro card_mono) auto
  ultimately have "int (card {x \<in> set xs. P (if x \<in> set ys then f x else x)}) = int (card ?A) - int (card ?B)"
    by simp
  moreover have "length (filter P (map (\<lambda>x. if x \<in> set ys then f x else x) xs)) =
      length (filter (\<lambda>x. P (if x \<in> set ys then f x else x)) xs)" by (simp add: filter_map o_def)
  ultimately show ?thesis
    using assms(1,2) by (simp add: distinct_length_filter Int_def conj_commute)
qed

lemma stats_add_up:
  assumes "\<And>a. a \<in> set as \<Longrightarrow> \<exists>s \<in> {ActionState_SUCCEEDED, ActionState_FAILED, ActionState_RETRY}.
    action_state a = action_state_value s"
  shows "processed (stats_of as) = stats_succeeded (stats_of as) + stats_failed (stats_of as) + stats_retried (stats_of as)"
    "int (length (filter (\<lambda>a. \<not> in_backlog a) as)) = stats_succeeded (stats_of as) + stats_failed (stats_of as)"
  using assms by (induction as) (auto simp: stats_of_def count_state_def in_backlog_def)

text \<open>
  C21. One round of the worker, whatever the transport answers: it returns, exactly the
  selected actions are replaced by their attempted versions (one attempt more, the lease
  gone, succeeded, failed or waiting for a retry) and no other action changes; the
  returned counters add up, and the queue shrinks by what succeeded or failed.
\<close>

theorem worker_round:
  assumes "scans_ok E" "wf w" "1 \<le> m" "handled T"
  shows "\<exists>st w'. process_due_actions E limit m ts d lease_s T now w = (Inr st, w') \<and>
    actions (db w') = map (\<lambda>a. if a \<in> set (round_due E limit lease_s now w)
      then attempted m ts d T (round_lease E now w) (round_time E now w) a else a) (actions (db w)) \<and>
    processed st = int (length (round_due E limit lease_s now w)) \<and>
    processed st = stats_succeeded st + stats_failed st + stats_retried st \<and>
    queue_backlog (db w') = queue_backlog (db w) - stats_succeeded st - stats_failed st"
proof -
  let ?due = "round_due E limit lease_s now w"
    and ?row = "attempted m ts d T (round_lease E now w) (round_time E now w)"
  obtain w' where run: "process_due_actions E limit m ts d lease_s T now w = (Inr (stats_of (map ?row ?due)), w')"
    and rows: "actions (db w') = map (\<lambda>a. if a \<in> set ?due then ?row a else a) (actions (db w))"
    using process_due_eq [OF assms] by blast
  note facts = round_due_facts [OF assms(1,2), of limit lease_s now]
  have states: "\<exists>s \<in> {ActionState_SUCCEEDED, ActionState_FAILED, ActionState_RETRY}.
      action_state a = action_state_value s" if a: "a \<in> set (map ?row ?due)" for a
  proof -
    obtain b where "a = ?row b" using a by auto
    then show ?thesis using attempted_state by metis
  qed
  note sum = stats_add_up(1) [of "map ?row ?due", OF states]
    and out = stats_add_up(2) [of "map ?row ?due", OF states]
  have "queue_backlog (db w') = queue_backlog (db w) - int (length (filter (\<lambda>a. \<not> in_backlog (?row a)) ?due))"
    unfolding queue_backlog_def rows using facts wf_action_ids [OF assms(2)]
    by (intro filter_map_swap) (auto simp: distinct_map)
  then have "queue_backlog (db w') = queue_backlog (db w) -
      stats_succeeded (stats_of (map ?row ?due)) - stats_failed (stats_of (map ?row ?due))"
    using out by (simp add: filter_map o_def)
  with run rows sum show ?thesis by (auto simp: stats_of_def)
qed

theorem worker_round_witness:
  "\<exists>st w'. process_due_actions demo_env 100 3 (1 / 5) 0 60 default_transport None demo_world1 = (Inr st, w') \<and>
     processed st = 1 \<and> queue_backlog (db w') = 1 - stats_succeeded st - stats_failed st"
proof -
  have wf: "wf demo_world1" using world_ok_demo1 by (simp add: world_ok_def)
  have due: "round_due demo_env 100 60 None demo_world1 = [demo_action]"
    by (simp add: round_due_def due_actions_def round_time_def now_utc_def is_due_def demo_action_def
        in_backlog_def seconds_def)
  have one: "queue_backlog (db demo_world1) = 1" by (simp add: queue_backlog_def)
  from worker_round [OF demo_env_ok(2) wf _ default_transport_handled, of 3 100 "1 / 5" 0 60 None]
  show ?thesis unfolding due one by auto
qed

section \<open>The invariant, and all or nothing\<close>

text \<open>The worker never changes which incident an action belongs to.\<close>

definition action_link :: "action \<Rightarrow> int \<times> int" where
  "action_link a = (action_id a, action_incident_id a)"

lemma action_link_simps [simp]:
  "action_link (lease l t a) = action_link a" "action_link (settle m d t out a) = action_link a"
  "action_link (a\<lparr>action_attempts := n\<rparr>) = action_link a"
  by (simp_all add: action_link_def)

lemma links_put:
  assumes "distinct (map action_id rows)" "action_link b \<in> set (map action_link rows)"
  shows "map action_link (put_row action_id b rows) = map action_link rows"
proof (rule map_other_put_row)
  fix x assume x: "x \<in> set rows" "action_id x = action_id b"
  obtain y where y: "y \<in> set rows" "action_link y = action_link b" using assms(2) by auto
  then have "y = x" using x assms(1) by (simp add: action_link_def distinct_map inj_on_def)
  with y(2) show "action_link b = action_link x" by simp
qed

lemma wf_put_linked:
  assumes "wf w" "action_link a \<in> set (map action_link (actions (db w)))"
    "0 \<le> action_attempts a" "action_state a \<in> range action_state_value"
  shows "\<exists>old. get_action w (action_id a) = Some old \<and> action_incident_id a = action_incident_id old \<and>
    wf (put_action a w)"
proof -
  obtain old where old: "old \<in> set (actions (db w))" "action_id old = action_id a"
    "action_incident_id old = action_incident_id a" using assms(2) by (auto simp: action_link_def)
  have get: "get_action w (action_id a) = Some old"
    using wf_get_action [OF assms(1) old(1)] old(2) by simp
  with wf_put_action [OF assms(1) get old(3) [symmetric] assms(3,4)] old(3) show ?thesis by simp
qed

lemma once_links:
  assumes "distinct (map action_id (actions (db w)))" "action_link a \<in> set (map action_link (actions (db w)))"
  shows "map action_link (actions (db (snd (execute_action_once E m ts d T now a w)))) =
    map action_link (actions (db w))"
proof -
  have "map action_link (put_row action_id b (actions (db w))) = map action_link (actions (db w))"
    if "action_link b = action_link a" for b
    using links_put [of "actions (db w)" b] assms that by simp
  then show ?thesis
    by (simp add: execute_action_once_def Let_def split_beta split: sum.split)
qed

lemma lease_and_execute_ok:
  assumes "ids_ok E" "wf w" "action_link a \<in> set (map action_link (actions (db w)))"
    "0 \<le> action_attempts a" "action_state a \<in> range action_state_value"
  shows "wf (snd (lease_and_execute E m ts d T l now a w)) \<and>
    map action_link (actions (db (snd (lease_and_execute E m ts d T l now a w)))) = map action_link (actions (db w))"
proof -
  let ?w1 = "put_action (lease l now a) w"
  have w1: "wf ?w1" using wf_put_linked [OF assms(2), of "lease l now a"] assms(3-5) by auto
  have links: "map action_link (actions (db ?w1)) = map action_link (actions (db w))"
    using links_put [OF wf_action_ids [OF assms(2)], of "lease l now a"] assms(3) by simp
  have in1: "action_link (lease l now a) \<in> set (map action_link (actions (db ?w1)))"
    unfolding links using assms(3) by simp
  obtain old where "get_action ?w1 (action_id (lease l now a)) = Some old"
    "action_incident_id (lease l now a) = action_incident_id old"
    using wf_put_linked [OF w1 in1] assms(4,5) by auto
  from wf_execute_once [OF assms(1) w1 this] assms(4,5)
  have "wf (snd (lease_and_execute E m ts d T l now a w))" by (simp add: lease_and_execute_def Let_def)
  moreover from once_links [OF wf_action_ids [OF w1] in1] links
  have "map action_link (actions (db (snd (lease_and_execute E m ts d T l now a w)))) = map action_link (actions (db w))"
    by (simp add: lease_and_execute_def Let_def)
  ultimately show ?thesis by blast
qed

lemma world_ok_process_due:
  assumes "ids_ok E" "scans_ok E" "world_ok w"
  shows "world_ok (snd (process_due_actions E limit m ts d lease_s T now w))"
proof -
  let ?w2 = "snd (uuid4_hex E (snd (now_or E now w)))"
  let ?due = "due_actions E limit lease_s (fst (now_or E now w)) (snd (now_or E now w))"
  have same: "db ?w2 = db w" "saved ?w2 = saved w" by (simp_all add: uuid4_hex_def)
  have wf: "wf w" using assms(3) by (simp add: world_ok_def)
  have row: "action_link a \<in> set (map action_link (actions (db w)))" "0 \<le> action_attempts a"
    "action_state a \<in> range action_state_value" if "a \<in> set ?due" for a
    using due_subset [OF assms(2) that] wf by (auto simp: wf_db_def actions_ok_def)
  have "wf (snd (for_each (lease_and_execute E m ts d T l t) ?due ?w2)) \<and>
      map action_link (actions (db (snd (for_each (lease_and_execute E m ts d T l t) ?due ?w2)))) =
      map action_link (actions (db w))" for l t
  proof (rule for_each_invariant)
    fix a v assume a: "a \<in> set ?due"
      and v: "wf v \<and> map action_link (actions (db v)) = map action_link (actions (db w))"
    from lease_and_execute_ok [OF assms(1), of v a] v row [OF a]
    show "wf (snd (lease_and_execute E m ts d T l t a v)) \<and>
      map action_link (actions (db (snd (lease_and_execute E m ts d T l t a v)))) = map action_link (actions (db w))"
      by simp
  qed (simp add: same wf)
  then show ?thesis
    using assms(3) same by (simp add: world_ok_def process_due_actions_def split_beta Let_def split: sum.split)
qed

lemma process_due_saved [simp]:
  "saved (snd (process_due_actions E limit m ts d lease_s T now w)) = saved w"
  by (simp add: process_due_actions_def split_beta Let_def uuid4_hex_def split: sum.split)

lemma world_ok_run_once:
  "ids_ok E \<Longrightarrow> scans_ok E \<Longrightarrow> world_ok w \<Longrightarrow> world_ok (snd (run_once E wk limit now w))"
  unfolding run_once_def by (rule worker_scope.run_world_ok) (rule world_ok_process_due)

text \<open>
  C23. A worker run is all or nothing: a run that raises leaves the committed database as it
  was (no lease, attempt or audit entry of it survives), a run that returns commits
  everything it did, and the run raises only for a non-positive attempt limit.
\<close>

theorem run_once_all_or_nothing:
  assumes "scans_ok E" "wf_db (saved w)" "run_once E wk limit now w = (x, w')"
  shows "db w' = saved w' \<and>
    (case x of
       Inl e \<Rightarrow> saved w' = saved w \<and> worker_max_attempts wk < 1
     | Inr st \<Rightarrow> saved w' = db (snd (process_due_actions E limit (worker_max_attempts wk) (worker_timeout_seconds wk)
         (worker_retry_delay_seconds wk) (worker_lease_seconds wk) default_transport now (rollback w))))"
proof -
  let ?body = "process_due_actions E limit (worker_max_attempts wk) (worker_timeout_seconds wk)
         (worker_retry_delay_seconds wk) (worker_lease_seconds wk) default_transport now"
  have run: "in_worker_session ?body w = (x, w')" using assms(3) by (simp add: run_once_def)
  have clean: "db w' = saved w'" using worker_scope.run_clean [of ?body w] run by simp
  have res: "fst (?body (rollback w)) = x" using worker_scope.run_result [of ?body w] run by simp
  show ?thesis
  proof (cases x)
    case (Inl e)
    have "saved w' = saved w" using worker_scope.run_atomic [of ?body w e] run Inl by simp
    moreover have "worker_max_attempts wk < 1"
    proof (rule ccontr)
      assume "\<not> worker_max_attempts wk < 1"
      with worker_round [OF assms(1) _ _ default_transport_handled, of "rollback w" "worker_max_attempts wk"
          limit "worker_timeout_seconds wk" "worker_retry_delay_seconds wk" "worker_lease_seconds wk" now] assms(2)
      show False using res Inl by auto
    qed
    ultimately show ?thesis using clean Inl by simp
  next
    case (Inr st)
    then show ?thesis using worker_scope.run_commits [of ?body w st] res clean run by simp
  qed
qed

text \<open>The committed demo world, and the worker with the default settings.\<close>

definition default_worker :: action_worker where
  "default_worker =
     \<lparr>worker_max_attempts = 3, worker_timeout_seconds = 1 / 5, worker_retry_delay_seconds = 0,
      worker_lease_seconds = 60\<rparr>"

lemma wf_demo1 [simp]: "wf_db (db demo_world1)"
  using world_ok_demo1 by (simp add: world_ok_def)

theorem run_once_all_or_nothing_witness:
  "\<exists>x w'. run_once demo_env (default_worker\<lparr>worker_max_attempts := 0\<rparr>) 100 None (commit demo_world1) = (x, w') \<and>
     db w' = saved w' \<and>
     (case x of
        Inl e \<Rightarrow> saved w' = db demo_world1
      | Inr st \<Rightarrow> saved w' = db (snd (process_due_actions demo_env 100 0 (1 / 5) 0 60 default_transport None
          (rollback (commit demo_world1)))))"
proof -
  obtain x w' where run: "run_once demo_env (default_worker\<lparr>worker_max_attempts := 0\<rparr>) 100 None (commit demo_world1) = (x, w')"
    by fastforce
  have "wf_db (saved (commit demo_world1))" by simp
  from run_once_all_or_nothing [OF demo_env_ok(2) this run] run show ?thesis
    by (auto simp: default_worker_def split: sum.splits)
qed

section \<open>Draining the queue\<close>

lemma for_each_reads:
  "reads w \<le> reads (snd (for_each (lease_and_execute E m ts d T l now) due w))"
proof (rule for_each_invariant)
  fix a and v :: world assume "reads w \<le> reads v"
  then show "reads w \<le> reads (snd (lease_and_execute E m ts d T l now a v))"
    by (simp add: lease_and_execute_def execute_action_once_def Let_def split_beta put_action_def add_audit_def
        split: sum.split)
qed simp

lemma process_due_reads:
  "reads w < reads (snd (process_due_actions E limit m ts d lease_s T None w))"
proof -
  let ?w2 = "snd (uuid4_hex E (snd (now_utc E w)))"
  have eq: "snd (process_due_actions E limit m ts d lease_s T None w) =
      snd (for_each (lease_and_execute E m ts d T (''lease_'' @ fst (uuid4_hex E (snd (now_utc E w)))) (fst (now_utc E w)))
        (due_actions E limit lease_s (fst (now_utc E w)) (snd (now_utc E w))) ?w2)"
    by (simp add: process_due_actions_def split_beta Let_def split: sum.split)
  have "reads w < reads ?w2" by (simp add: uuid4_hex_def)
  then show ?thesis unfolding eq by (rule less_le_trans [OF _ for_each_reads])
qed

text \<open>
  After \<open>j\<close> rounds every action still in the queue is free and due now, and has had at least
  \<open>j\<close> attempts, and fewer than the limit once a round has run.
\<close>

definition drained_to :: "env \<Rightarrow> int \<Rightarrow> nat \<Rightarrow> world \<Rightarrow> bool" where
  "drained_to E m j w \<longleftrightarrow>
     (\<forall>a \<in> set (actions (saved w)). in_backlog a \<longrightarrow>
        action_lease_id a = None \<and>
        (\<forall>t. action_next_attempt_at a = Some t \<longrightarrow> t \<le> clock E (reads w)) \<and>
        int j \<le> action_attempts a \<and> (0 < j \<longrightarrow> action_attempts a < m))"

definition next_round :: "env \<Rightarrow> action_worker \<Rightarrow> nat \<Rightarrow> world \<Rightarrow> world" where
  "next_round E wk limit w = snd (run_once E wk limit None w)"

lemma backlog_selected:
  assumes "scans_ok E" "length (filter in_backlog (actions (db w))) \<le> limit"
    and "\<forall>a \<in> set (actions (db w)). in_backlog a \<longrightarrow> is_due now lease_s a"
  shows "set (due_actions E limit lease_s now w) = {a \<in> set (actions (db w)). in_backlog a}"
proof -
  have "filter (is_due now lease_s) (actions (db w)) = filter in_backlog (actions (db w))"
    using assms(3) by (intro filter_cong) (auto simp: is_due_def)
  then have "length (due_actions E (Suc limit) lease_s now w) \<le> limit"
    using length_due [OF assms(1), of "Suc limit" lease_s now w] assms(2) by simp
  then have "length (filter (is_due now lease_s) (scan_actions E (actions (db w)))) \<le> limit"
    by (simp add: due_actions_def)
  then have "set (due_actions E limit lease_s now w) = set (filter (is_due now lease_s) (scan_actions E (actions (db w))))"
    by (simp add: due_actions_def)
  then show ?thesis using assms(3) by (auto simp: scan_sets [OF assms(1)] is_due_def)
qed

lemma round_drains:
  assumes E: "ids_ok E" "scans_ok E" "clock_ok E"
    and wk: "1 \<le> worker_max_attempts wk" "worker_retry_delay_seconds wk = 0"
    and w: "world_ok w" "queue_backlog (saved w) \<le> int limit" "drained_to E (worker_max_attempts wk) j w"
  shows "world_ok (next_round E wk limit w)" "queue_backlog (saved (next_round E wk limit w)) \<le> int limit"
    "drained_to E (worker_max_attempts wk) (Suc j) (next_round E wk limit w)"
proof -
  let ?m = "worker_max_attempts wk" and ?v = "rollback w" and ?t = "clock E (reads w)"
  let ?body = "process_due_actions E limit ?m (worker_timeout_seconds wk) 0 (worker_lease_seconds wk) default_transport None"
  show "world_ok (next_round E wk limit w)"
    unfolding next_round_def by (rule world_ok_run_once [OF E(1,2) w(1)])
  have wf: "wf ?v" using w(1) by (simp add: world_ok_def)
  obtain st v' where round: "?body ?v = (Inr st, v')"
    and rows: "actions (db v') = map (\<lambda>a. if a \<in> set (round_due E limit (worker_lease_seconds wk) None ?v)
        then attempted ?m (worker_timeout_seconds wk) 0 default_transport (round_lease E None ?v) (round_time E None ?v) a
        else a) (actions (db ?v))"
    and counts: "processed st = stats_succeeded st + stats_failed st + stats_retried st"
      "queue_backlog (db v') = queue_backlog (db ?v) - stats_succeeded st - stats_failed st"
    using worker_round [OF E(2) wf wk(1) default_transport_handled] by blast
  have run: "run_once E wk limit None w = (Inr st, close_session (commit v'))"
    using round wk(2) by (simp add: run_once_def in_worker_session_def open_session_def)
  then have after: "saved (next_round E wk limit w) = db v'" "reads (next_round E wk limit w) = reads v'"
    by (simp_all add: next_round_def close_session_def)
  have time: "round_time E None ?v = ?t" by (simp add: round_time_def)
  have "reads w < reads v'"
    using process_due_reads [of ?v E limit ?m "worker_timeout_seconds wk" 0 "worker_lease_seconds wk" default_transport] round
    by simp
  then have later: "?t \<le> clock E (reads v')" using E(3) by (simp add: clock_ok_def)
  have due: "\<forall>a \<in> set (actions (db ?v)). in_backlog a \<longrightarrow> is_due ?t (worker_lease_seconds wk) a"
    using w(3) by (auto simp: drained_to_def is_due_def split: option.split)
  have "length (filter in_backlog (actions (db ?v))) \<le> limit" using w(2) by (simp add: queue_backlog_def)
  from backlog_selected [OF E(2) this due]
  have sel: "set (round_due E limit (worker_lease_seconds wk) None ?v) = {a \<in> set (actions (saved w)). in_backlog a}"
    by (simp add: round_due_def time)
  show "drained_to E ?m (Suc j) (next_round E wk limit w)"
    unfolding drained_to_def after
  proof (intro ballI impI)
    fix b assume b: "b \<in> set (actions (db v'))" "in_backlog b"
    then obtain a where a: "a \<in> set (actions (saved w))" "in_backlog a"
      "b = attempted ?m (worker_timeout_seconds wk) 0 default_transport (round_lease E None ?v) ?t a"
      unfolding rows sel by (auto simp: time split: if_splits)
    with attempted_retry [of ?m "worker_timeout_seconds wk" 0 default_transport "round_lease E None ?v" ?t a] b(2) w(3) later
    show "action_lease_id b = None \<and> (\<forall>t. action_next_attempt_at b = Some t \<longrightarrow> t \<le> clock E (reads v')) \<and>
        int (Suc j) \<le> action_attempts b \<and> (0 < Suc j \<longrightarrow> action_attempts b < ?m)"
      by (auto simp: drained_to_def)
  qed
  have "0 \<le> stats_succeeded st" "0 \<le> stats_failed st"
    using round by (auto simp: process_due_actions_def Let_def split_beta stats_of_def count_state_def split: sum.splits)
  then show "queue_backlog (saved (next_round E wk limit w)) \<le> int limit"
    using counts(2) w(2) by (simp add: after)
qed

text \<open>
  C20. Liveness: a worker without a retry delay drains the queue. If every queued action is
  due and free of leases and the limit per round covers the queue, then after
  \<open>max_attempts\<close> rounds no action is queued or waiting for a retry.
\<close>

theorem worker_drains_queue:
  assumes "ids_ok E" "scans_ok E" "clock_ok E" "world_ok w"
    and "1 \<le> worker_max_attempts wk" "worker_retry_delay_seconds wk = 0"
    and "queue_backlog (saved w) \<le> int limit"
    and "\<forall>a \<in> set (actions (saved w)). in_backlog a \<longrightarrow> action_lease_id a = None \<and>
      (\<forall>t. action_next_attempt_at a = Some t \<longrightarrow> t \<le> clock E (reads w))"
  shows "queue_backlog (saved ((next_round E wk limit ^^ nat (worker_max_attempts wk)) w)) = 0"
proof -
  let ?m = "worker_max_attempts wk"
  have start: "drained_to E ?m 0 w"
    using assms(4,8) by (auto simp: drained_to_def world_ok_def wf_db_def actions_ok_def)
  have rounds: "world_ok ((next_round E wk limit ^^ j) w) \<and>
      queue_backlog (saved ((next_round E wk limit ^^ j) w)) \<le> int limit \<and>
      drained_to E ?m j ((next_round E wk limit ^^ j) w)" for j
  proof (induction j)
    case 0
    with assms(4,7) start show ?case by simp
  next
    case (Suc j)
    then show ?case
      using round_drains [OF assms(1-3,5,6), of "(next_round E wk limit ^^ j) w" limit j] by simp
  qed
  have "\<not> in_backlog a" if "a \<in> set (actions (saved ((next_round E wk limit ^^ nat ?m) w)))" for a
    using rounds [of "nat ?m"] that assms(5) by (force simp: drained_to_def)
  then show ?thesis by (simp add: queue_backlog_def filter_empty_conv)
qed

theorem worker_drains_queue_witness:
  "queue_backlog (saved ((next_round demo_env default_worker 100 ^^ 3) (commit demo_world1))) = 0 \<and>
   queue_backlog (saved (commit demo_world1)) = 1"
proof -
  have ok: "world_ok (commit demo_world1)" by (simp add: world_ok_commit)
  have one: "queue_backlog (saved (commit demo_world1)) = 1" by (simp add: queue_backlog_def)
  have wk: "1 \<le> worker_max_attempts default_worker" "worker_retry_delay_seconds default_worker = 0"
    by (simp_all add: default_worker_def)
  have free: "\<forall>a \<in> set (actions (saved (commit demo_world1))). in_backlog a \<longrightarrow> action_lease_id a = None \<and>
      (\<forall>t. action_next_attempt_at a = Some t \<longrightarrow> t \<le> clock demo_env (reads (commit demo_world1)))"
    by (simp add: demo_action_def)
  have m: "nat (worker_max_attempts default_worker) = 3" by (simp add: default_worker_def)
  have small: "queue_backlog (saved (commit demo_world1)) \<le> int 100" by (simp only: one)
  from worker_drains_queue [OF demo_env_ok ok wk small free] one show ?thesis by (simp only: m)
qed

end
