(* ===== verification/Checks.thy ===== *)
theory Checks
  imports Database Seed
begin

text \<open>
  \<open>services/checks.py\<close>: the life cycle of a check run (a table of allowed transitions over
  stored state values), the operations that create and move a check, and the sweep that
  times out checks whose confirmation is overdue.
\<close>

section \<open>The operations\<close>

definition allowed_transitions :: "string \<Rightarrow> string set option" where
  "allowed_transitions s =
     (if s = check_state_value CheckState_PENDING
      then Some (check_state_value ` {CheckState_STARTED, CheckState_CANCELLED, CheckState_FAILED})
      else if s = check_state_value CheckState_STARTED
      then Some (check_state_value ` {CheckState_WAITING_CONFIRMATION, CheckState_CANCELLED, CheckState_FAILED})
      else if s = check_state_value CheckState_WAITING_CONFIRMATION
      then Some (check_state_value ` {CheckState_CONFIRMED, CheckState_TIMEOUT, CheckState_CANCELLED, CheckState_FAILED})
      else if s \<in> check_state_value ` {CheckState_CONFIRMED, CheckState_TIMEOUT, CheckState_CANCELLED, CheckState_FAILED}
      then Some {}
      else None)"

definition audit_check :: "env \<Rightarrow> check_run \<Rightarrow> string \<Rightarrow> string \<Rightarrow> world \<Rightarrow> world" where
  "audit_check E c event_type message w = add_audit E event_type ''check'' (check_id c) message w"

definition create_check :: "env \<Rightarrow> string \<Rightarrow> string \<Rightarrow> string \<Rightarrow> instant option \<Rightarrow> world \<Rightarrow> check_run outcome" where
  "create_check E name asset_external detail now w =
     (let (t, w1) = now_or E now w;
          (c, w2) = add_check E name asset_external detail t w1
      in (Inr c, audit_check E c ''check_created'' (''Check '' @ name @ '' created'') w2))"

definition finished_values :: "string set" where
  "finished_values =
     check_state_value ` {CheckState_CONFIRMED, CheckState_TIMEOUT, CheckState_CANCELLED, CheckState_FAILED}"

text \<open>The assignments to a check that moves to \<open>target\<close>.\<close>

definition moved :: "string \<Rightarrow> string \<Rightarrow> int option \<Rightarrow> instant \<Rightarrow> check_run \<Rightarrow> check_run" where
  "moved target detail timeout_seconds now c =
     (let c1 = c\<lparr>check_state := target,
                 check_detail := (if detail \<noteq> [] then detail else check_detail c),
                 check_updated_at := now\<rparr>;
          c2 = (if target = check_state_value CheckState_WAITING_CONFIRMATION
                then (case timeout_seconds of
                        Some t \<Rightarrow> c1\<lparr>check_confirmation_due_at := Some (now + seconds t)\<rparr>
                      | None \<Rightarrow> c1)
                else c1)
      in if target \<in> finished_values then c2\<lparr>check_confirmation_due_at := None\<rparr> else c2)"

definition transition_check ::
  "env \<Rightarrow> check_run \<Rightarrow> string \<Rightarrow> string \<Rightarrow> int option \<Rightarrow> instant option \<Rightarrow> world \<Rightarrow> check_run outcome" where
  "transition_check E c target_state detail timeout_seconds now w =
     (let (t, w1) = now_or E now w; target = str_lower target_state
      in if target \<notin> (case allowed_transitions (check_state c) of Some s \<Rightarrow> s | None \<Rightarrow> {})
         then (Inl (InvalidCheckTransition
                      (''cannot transition check from '' @ check_state c @ '' to '' @ target)), w1)
         else let c1 = moved target detail timeout_seconds t c
              in (Inr c1, audit_check E c1 ''check_transitioned'' (''Check moved to '' @ target)
                            (put_check c1 w1)))"

definition overdue :: "instant \<Rightarrow> check_run \<Rightarrow> bool" where
  "overdue now c \<longleftrightarrow>
     check_state c = check_state_value CheckState_WAITING_CONFIRMATION \<and>
     (case check_confirmation_due_at c of None \<Rightarrow> False | Some t \<Rightarrow> t \<le> now)"

definition expire_waiting_checks :: "env \<Rightarrow> instant option \<Rightarrow> world \<Rightarrow> int outcome" where
  "expire_waiting_checks E now w =
     (let (t, w1) = now_or E now w;
          overdue_checks = filter (overdue t) (scan_checks E (checks (db w1)))
      in case for_each (\<lambda>c. transition_check E c (check_state_value CheckState_TIMEOUT)
                              ''confirmation timeout'' None (Some t)) overdue_checks w1 of
           (Inl e, w2) \<Rightarrow> (Inl e, w2)
         | (Inr _, w2) \<Rightarrow> (Inr (int (length overdue_checks)), w2))"

section \<open>The abstract life cycle\<close>

inductive check_step :: "check_state \<Rightarrow> check_state \<Rightarrow> bool" where
  start: "check_step CheckState_PENDING CheckState_STARTED"
| await: "check_step CheckState_STARTED CheckState_WAITING_CONFIRMATION"
| confirm: "check_step CheckState_WAITING_CONFIRMATION CheckState_CONFIRMED"
| expire: "check_step CheckState_WAITING_CONFIRMATION CheckState_TIMEOUT"
| cancel: "s \<in> {CheckState_PENDING, CheckState_STARTED, CheckState_WAITING_CONFIRMATION} \<Longrightarrow>
    check_step s CheckState_CANCELLED"
| fail: "s \<in> {CheckState_PENDING, CheckState_STARTED, CheckState_WAITING_CONFIRMATION} \<Longrightarrow>
    check_step s CheckState_FAILED"

code_pred check_step .

inductive_cases check_stepE: "check_step s t"

fun check_rank :: "check_state \<Rightarrow> nat" where
  "check_rank CheckState_PENDING = 3"
| "check_rank CheckState_STARTED = 2"
| "check_rank CheckState_WAITING_CONFIRMATION = 1"
| "check_rank _ = 0"

interpretation check_life: ranked_machine check_step check_rank
  by unfold_locales (auto elim!: check_stepE)

definition finished_state :: "check_state \<Rightarrow> bool" where
  "finished_state s \<longleftrightarrow> s \<in> {CheckState_CONFIRMED, CheckState_TIMEOUT, CheckState_CANCELLED, CheckState_FAILED}"

lemma check_step_iff:
  "check_step s t \<longleftrightarrow>
     check_state_value t \<in> (case allowed_transitions (check_state_value s) of Some x \<Rightarrow> x | None \<Rightarrow> {})"
  by (cases s; cases t) (auto simp: allowed_transitions_def intro: check_step.intros elim!: check_stepE)

lemma finished_value_iff [simp]: "check_state_value s \<in> finished_values \<longleftrightarrow> finished_state s"
  by (cases s) (simp_all add: finished_values_def finished_state_def image_iff)

lemma final_iff: "finished_state s \<longleftrightarrow> (\<forall>t. \<not> check_step s t)"
  by (cases s) (auto simp: finished_state_def intro: check_step.intros elim!: check_stepE)

lemma allowed_are_values:
  "x \<in> (case allowed_transitions s of Some y \<Rightarrow> y | None \<Rightarrow> {}) \<Longrightarrow> \<exists>t. x = check_state_value t"
  by (auto simp: allowed_transitions_def split: if_splits)

section \<open>What each operation leaves unchanged\<close>

lemma moved_simps [simp]:
  "check_id (moved g d ts now c) = check_id c" "check_name (moved g d ts now c) = check_name c"
  "check_asset_external_id (moved g d ts now c) = check_asset_external_id c"
  "check_state (moved g d ts now c) = g" "check_updated_at (moved g d ts now c) = now"
  "check_created_at (moved g d ts now c) = check_created_at c"
  by (simp_all add: moved_def Let_def split: option.split)

lemma moved_due:
  "check_confirmation_due_at (moved (check_state_value s) d ts now c) =
     (if finished_state s then None
      else if s = CheckState_WAITING_CONFIRMATION \<and> ts \<noteq> None then Some (now + seconds (the ts))
      else check_confirmation_due_at c)"
  by (auto simp: moved_def Let_def finished_state_def split: option.split)

lemma audit_check_frame [simp]:
  "assets (db (audit_check E c ty m w)) = assets (db w)" "rules (db (audit_check E c ty m w)) = rules (db w)"
  "events (db (audit_check E c ty m w)) = events (db w)" "incidents (db (audit_check E c ty m w)) = incidents (db w)"
  "actions (db (audit_check E c ty m w)) = actions (db w)" "idems (db (audit_check E c ty m w)) = idems (db w)"
  "jobs (db (audit_check E c ty m w)) = jobs (db w)" "checks (db (audit_check E c ty m w)) = checks (db w)"
  "saved (audit_check E c ty m w) = saved w"
  by (simp_all add: audit_check_def)

lemma transition_frame [simp]:
  "assets (db (snd (transition_check E c g d ts now w))) = assets (db w)"
  "rules (db (snd (transition_check E c g d ts now w))) = rules (db w)"
  "events (db (snd (transition_check E c g d ts now w))) = events (db w)"
  "incidents (db (snd (transition_check E c g d ts now w))) = incidents (db w)"
  "actions (db (snd (transition_check E c g d ts now w))) = actions (db w)"
  "idems (db (snd (transition_check E c g d ts now w))) = idems (db w)"
  "jobs (db (snd (transition_check E c g d ts now w))) = jobs (db w)"
  "saved (snd (transition_check E c g d ts now w)) = saved w"
  by (simp_all add: transition_check_def Let_def split_beta)

lemma transition_allowed:
  assumes "check_state c = check_state_value s" "str_lower target = check_state_value t" "check_step s t"
    and "c1 = moved (check_state_value t) d ts (fst (now_or E now w)) c"
  shows "transition_check E c target d ts now w =
    (Inr c1, audit_check E c1 ''check_transitioned'' (''Check moved to '' @ check_state_value t)
      (put_check c1 (snd (now_or E now w))))"
  using assms check_step_iff [of s t] by (simp add: transition_check_def Let_def split_beta)

lemma transition_refused:
  assumes "check_state c = check_state_value s" "\<nexists>t. str_lower target = check_state_value t \<and> check_step s t"
  shows "transition_check E c target d ts now w =
    (Inl (InvalidCheckTransition (''cannot transition check from '' @ check_state c @ '' to '' @ str_lower target)),
     snd (now_or E now w))"
proof -
  have "str_lower target \<notin> (case allowed_transitions (check_state c) of Some x \<Rightarrow> x | None \<Rightarrow> {})"
    using assms allowed_are_values [of "str_lower target" "check_state c"] check_step_iff [of s] by auto
  then show ?thesis by (simp add: transition_check_def Let_def split_beta)
qed

lemma wf_audit_check: "ids_ok E \<Longrightarrow> wf w \<Longrightarrow> wf (audit_check E c ty m w)"
  by (simp add: audit_check_def wf_add_audit)

lemma wf_create_check:
  "ids_ok E \<Longrightarrow> wf w \<Longrightarrow> wf (snd (create_check E name ext detail now w))"
  by (simp add: create_check_def Let_def split_beta wf_audit_check wf_add_check)

lemma wf_transition:
  assumes "ids_ok E" "wf w"
  shows "wf (snd (transition_check E c g d ts now w))"
proof (cases "str_lower g \<in> (case allowed_transitions (check_state c) of Some x \<Rightarrow> x | None \<Rightarrow> {})")
  case True
  then have "str_lower g \<in> range check_state_value" using allowed_are_values by blast
  then have "wf (put_check (moved (str_lower g) d ts (fst (now_or E now w)) c) (snd (now_or E now w)))"
    using assms(2) by (intro wf_put_check) simp_all
  with True show ?thesis
    using assms(1) by (simp add: transition_check_def Let_def split_beta wf_audit_check)
next
  case False
  then show ?thesis using assms(2) by (simp add: transition_check_def Let_def split_beta)
qed

section \<open>Properties\<close>

text \<open>A check of the demo pump that waits for its confirmation.\<close>

definition demo_check :: check_run where
  "demo_check =
     \<lparr>check_id = 1, check_name = ''valve check'', check_asset_external_id = ''PUMP-101'',
      check_state = check_state_value CheckState_WAITING_CONFIRMATION, check_detail = ''awaiting operator'',
      check_confirmation_due_at = Some 1000000000000, check_created_at = 999999000000,
      check_updated_at = 999999000000\<rparr>"

definition check_world :: world where
  "check_world = demo_world\<lparr>db := (db demo_world)\<lparr>checks := [demo_check]\<rparr>\<rparr>"

lemma check_world_simps [simp]: "checks (db check_world) = [demo_check]" "reads check_world = 0"
  by (simp_all add: check_world_def)

text \<open>
  C24. A transition refines the abstract life cycle: for a stored check in state \<open>s\<close> it succeeds
  exactly when the requested state, whatever its letter case, is the value of a state \<open>t\<close>
  that \<open>s\<close> may move to, and then stores exactly that row moved (the deadline set from the
  timeout on a wait, cleared at the end, the detail kept when none is given); otherwise it
  raises and changes nothing. No run of a check has more than three transitions.
\<close>

theorem transition_refines_life_cycle:
  assumes "get_check w (check_id c) = Some c" "check_state c = check_state_value s"
  shows "(case transition_check E c target d ts now w of
      (Inr c1, w') \<Rightarrow> (\<exists>t. str_lower target = check_state_value t \<and> check_step s t \<and>
        check_state c1 = check_state_value t \<and> get_check w' = (get_check w)(check_id c \<mapsto> c1) \<and>
        check_detail c1 = (if d = [] then check_detail c else d) \<and>
        check_confirmation_due_at c1 =
          (if finished_state t then None
           else if t = CheckState_WAITING_CONFIRMATION
           then (case ts of None \<Rightarrow> check_confirmation_due_at c | Some x \<Rightarrow> Some (fst (now_or E now w) + seconds x))
           else check_confirmation_due_at c))
    | (Inl e, w') \<Rightarrow> (\<nexists>t. str_lower target = check_state_value t \<and> check_step s t) \<and> db w' = db w \<and>
        e = InvalidCheckTransition (''cannot transition check from '' @ check_state c @ '' to '' @ str_lower target)) \<and>
    (\<forall>n t. (check_step ^^ n) s t \<longrightarrow> n \<le> 3)"
proof -
  have "check_rank s \<le> 3" by (cases s) simp_all
  then have bound: "n \<le> 3" if "(check_step ^^ n) s t" for n t
    using check_life.run_bounded [OF that] by simp
  show ?thesis
  proof (cases "\<exists>t. str_lower target = check_state_value t \<and> check_step s t")
    case False
    with transition_refused [OF assms(2) False] bound show ?thesis by auto
  next
    case True
    then obtain t where t: "str_lower target = check_state_value t" "check_step s t" by blast
    let ?c1 = "moved (check_state_value t) d ts (fst (now_or E now w)) c"
    have step: "transition_check E c target d ts now w =
      (Inr ?c1, audit_check E ?c1 ''check_transitioned'' (''Check moved to '' @ check_state_value t)
        (put_check ?c1 (snd (now_or E now w))))"
      using transition_allowed [OF assms(2) t] by blast
    have found: "get_check (snd (now_or E now w)) (check_id ?c1) \<noteq> None"
      using assms(1) by (simp add: get_check_def)
    have "get_check (put_check ?c1 (snd (now_or E now w))) k = ((get_check w)(check_id c \<mapsto> ?c1)) k" for k
      using check_store.get_put [OF found, of k] by (simp add: get_check_def)
    then have "get_check (snd (transition_check E c target d ts now w)) = (get_check w)(check_id c \<mapsto> ?c1)"
      unfolding step by (simp add: fun_eq_iff get_check_def)
    moreover have "check_detail ?c1 = (if d = [] then check_detail c else d)"
      by (simp add: moved_def Let_def split: option.split)
    ultimately show ?thesis
      using step t bound by (auto simp: moved_due split: option.split)
  qed
qed

theorem transition_refines_life_cycle_witness:
  "\<exists>c1 w'. transition_check demo_env demo_check ''CONFIRMED'' [] None None check_world = (Inr c1, w') \<and>
     check_state c1 = check_state_value CheckState_CONFIRMED \<and> check_confirmation_due_at c1 = None \<and>
     check_detail c1 = ''awaiting operator'' \<and> get_check w' 1 = Some c1"
proof -
  have stored: "get_check check_world (check_id demo_check) = Some demo_check" by (simp add: get_check_def)
  have state: "check_state demo_check = check_state_value CheckState_WAITING_CONFIRMATION" by (simp add: demo_check_def)
  have low: "str_lower ''CONFIRMED'' = check_state_value CheckState_CONFIRMED"
    by code_simp
  have ok: "check_step CheckState_WAITING_CONFIRMATION CheckState_CONFIRMED" by (rule check_step.confirm)
  from transition_refines_life_cycle [OF stored state, where E = demo_env and target = "''CONFIRMED''" and d = "[]" and ts = None and now = None]
  show ?thesis
    using low ok by (auto simp: finished_state_def demo_check_def split: prod.splits sum.splits)
qed

section \<open>Deadlines\<close>

definition deadlines_ok :: "database \<Rightarrow> bool" where
  "deadlines_ok d \<longleftrightarrow>
     (\<forall>c \<in> set (checks d). check_confirmation_due_at c \<noteq> None \<longrightarrow>
        check_state c = check_state_value CheckState_WAITING_CONFIRMATION)"

lemma deadlines_put:
  assumes "deadlines_ok (db w)" "check_confirmation_due_at c \<noteq> None \<Longrightarrow> check_state c = check_state_value CheckState_WAITING_CONFIRMATION"
  shows "deadlines_ok (db (put_check c w))"
  using assms by (auto simp: deadlines_ok_def dest!: in_put_rowD)

text \<open>What is waited for with a deadline cannot move back to a state before the wait.\<close>

lemma moved_deadline:
  assumes "check_confirmation_due_at c \<noteq> None \<Longrightarrow> check_state c = check_state_value CheckState_WAITING_CONFIRMATION"
    and "check_state c = check_state_value s" "check_step s t"
    and "check_confirmation_due_at (moved (check_state_value t) d ts now c) \<noteq> None"
  shows "t = CheckState_WAITING_CONFIRMATION"
  using assms by (auto simp: moved_due finished_state_def split: if_splits elim!: check_stepE)

lemma deadlines_transition:
  assumes "deadlines_ok (db w)" "c \<in> set (checks (db w))"
  shows "deadlines_ok (db (snd (transition_check E c g d ts now w)))"
proof (cases "str_lower g \<in> (case allowed_transitions (check_state c) of Some x \<Rightarrow> x | None \<Rightarrow> {})")
  case True
  then obtain s t where s: "check_state c = check_state_value s" and t: "str_lower g = check_state_value t"
    using allowed_are_values [OF True] by (auto simp: allowed_transitions_def split: if_splits)
  with True have "check_step s t" by (simp add: check_step_iff)
  have c: "check_confirmation_due_at c \<noteq> None \<Longrightarrow> check_state c = check_state_value CheckState_WAITING_CONFIRMATION"
    using assms by (simp add: deadlines_ok_def)
  have "deadlines_ok (db (put_check (moved (check_state_value t) d ts (fst (now_or E now w)) c) (snd (now_or E now w))))"
    using assms(1) moved_deadline [OF c s \<open>check_step s t\<close>] by (intro deadlines_put) auto
  then show ?thesis
    unfolding transition_allowed [OF s t \<open>check_step s t\<close> refl] by (simp add: deadlines_ok_def)
next
  case False
  then show ?thesis using assms(1) by (simp add: transition_check_def Let_def split_beta)
qed

section \<open>Expiry\<close>

text \<open>What expiry makes of an overdue check.\<close>

definition expired :: "instant \<Rightarrow> check_run \<Rightarrow> check_run" where
  "expired now c = moved (check_state_value CheckState_TIMEOUT) ''confirmation timeout'' None now c"

lemma timeout_lower [simp]: "str_lower (check_state_value CheckState_TIMEOUT) = check_state_value CheckState_TIMEOUT"
  by (simp add: str_lower_def lower_char_def state_values)

lemma expire_one:
  assumes "check_state c = check_state_value CheckState_WAITING_CONFIRMATION"
  shows "transition_check E c (check_state_value CheckState_TIMEOUT) ''confirmation timeout'' None (Some t) w =
    (Inr (expired t c), audit_check E (expired t c) ''check_transitioned''
      (''Check moved to '' @ check_state_value CheckState_TIMEOUT) (put_check (expired t c) w))"
  using transition_allowed [OF assms timeout_lower check_step.expire, of "expired t c" "''confirmation timeout''" None E "Some t" w]
  by (simp add: expired_def)

interpretation expiry_sweep: row_sweep get_check check_id
  "\<lambda>c. transition_check E c (check_state_value CheckState_TIMEOUT) ''confirmation timeout'' None (Some t)"
  "expired t" "expired t" "\<lambda>c. check_state c = check_state_value CheckState_WAITING_CONFIRMATION" for E t
proof (unfold_locales, goal_cases)
  case (1 w c)
  then show ?case by (simp add: expire_one)
next
  case (2 w c)
  then have "get_check (put_check (expired t c) w) (check_id c) = Some (expired t c)"
    using check_store.get_put_same [of w "expired t c"] by (simp add: expired_def)
  with 2 show ?case by (simp add: expire_one get_check_def)
next
  case (3 w c k)
  then have "get_check (put_check (expired t c) w) k = get_check w k"
    using check_store.get_put_other [of "expired t c" k w] by (simp add: expired_def)
  with 3 show ?case by (simp add: expire_one get_check_def)
qed

lemma expire_eq:
  fixes now :: "instant option"
  assumes "scans_ok E" "wf w"
  defines "t \<equiv> fst (now_or E now w)"
  shows "\<exists>w'. expire_waiting_checks E now w = (Inr (int (length (filter (overdue t) (checks (db w))))), w') \<and>
    checks (db w') = map (\<lambda>c. if overdue t c then expired t c else c) (checks (db w)) \<and> saved w' = saved w"
proof -
  let ?w1 = "snd (now_or E now w)"
  let ?due = "filter (overdue t) (scan_checks E (checks (db ?w1)))"
  let ?body = "\<lambda>c. transition_check E c (check_state_value CheckState_TIMEOUT) ''confirmation timeout'' None (Some t)"
  let ?w' = "snd (for_each ?body ?due ?w1)"
  have ids: "distinct (map check_id (checks (db w)))" using assms(2) by (simp add: wf_db_def checks_ok_def)
  then have "distinct (map check_id (scan_checks E (checks (db w))))"
    by (simp only: scan_distinct(4) [OF assms(1)])
  then have dist: "distinct (map check_id ?due)"
    unfolding now_or_simps by (rule distinct_map_filter)
  have due: "c \<in> set ?due \<longleftrightarrow> c \<in> set (checks (db w)) \<and> overdue t c" for c
    by (simp add: scan_sets [OF assms(1)] conj_commute)
  have stored: "get_check ?w1 (check_id c) = Some c" if "c \<in> set ?due" for c
    using find_row_unique [OF ids, of c] that due by (simp add: get_check_def)
  have good: "check_state c = check_state_value CheckState_WAITING_CONFIRMATION" if "c \<in> set ?due" for c
    using that by (simp add: overdue_def)
  have res: "fst (for_each ?body ?due ?w1) = Inr (map (expired t) ?due)"
    using expiry_sweep.sweep_returns [OF dist stored good] by blast
  have get: "get_check ?w' k = (case find_row check_id k ?due of Some r \<Rightarrow> Some (expired t r) | None \<Rightarrow> get_check ?w1 k)" for k
    using expiry_sweep.sweep_get [OF dist stored good] by blast
  have same_ids: "map check_id (checks (db ?w')) = map check_id (checks (db w))"
    by (rule for_each_invariant) (simp_all add: transition_check_def Let_def split_beta)
  have saved: "saved ?w' = saved w" by (rule for_each_invariant) simp_all
  have rows: "checks (db ?w') = map (\<lambda>c. if overdue t c then expired t c else c) (checks (db w))"
  proof (rule rows_from_lookups [OF ids same_ids])
    fix c assume c: "c \<in> set (checks (db w))"
    have "find_row check_id (check_id c) ?due = (if overdue t c then Some c else None)"
    proof (cases "overdue t c")
      case True
      with c due find_row_unique [OF dist, of c] show ?thesis by simp
    next
      case False
      have "check_id c \<noteq> check_id b" if "b \<in> set ?due" for b
        using that due [of b] False c ids by (metis distinct_map inj_onD)
      then show ?thesis using False by (auto simp: find_row_None_iff)
    qed
    then show "find_row check_id (check_id c) (checks (db ?w')) = Some (if overdue t c then expired t c else c)"
      using get [of "check_id c"] find_row_unique [OF ids c] by (simp add: get_check_def)
  qed
  have "mset ?due = mset (filter (overdue t) (checks (db w)))"
    using assms(1) by (simp add: scans_ok_def)
  then have "length ?due = length (filter (overdue t) (checks (db w)))" by (rule mset_eq_length)
  then have "expire_waiting_checks E now w = (Inr (int (length (filter (overdue t) (checks (db w))))), ?w')"
    using res by (simp add: expire_waiting_checks_def split_beta Let_def t_def split: sum.split)
  with rows saved show ?thesis by blast
qed

text \<open>
  C25. Expiry is exact: \<open>expire_waiting_checks\<close> never raises, returns the number of checks that
  wait with a deadline that has passed, turns exactly those into \<open>timeout\<close> without a
  deadline and changes no other check, so that a second expiry at the same time finds
  nothing left.
\<close>

theorem expiry_exact:
  assumes "scans_ok E" "wf w"
  shows "\<exists>w'. expire_waiting_checks E (Some t) w = (Inr (int (length (filter (overdue t) (checks (db w))))), w') \<and>
    checks (db w') = map (\<lambda>c. if overdue t c then expired t c else c) (checks (db w)) \<and>
    (\<forall>c \<in> set (checks (db w)). overdue t c \<longrightarrow>
       check_state (expired t c) = check_state_value CheckState_TIMEOUT \<and>
       check_confirmation_due_at (expired t c) = None) \<and>
    filter (overdue t) (checks (db w')) = []"
proof -
  obtain w' where run: "expire_waiting_checks E (Some t) w = (Inr (int (length (filter (overdue t) (checks (db w))))), w')"
    and rows: "checks (db w') = map (\<lambda>c. if overdue t c then expired t c else c) (checks (db w))"
    using expire_eq [OF assms, of "Some t"] by auto
  have row: "check_state (expired t c) = check_state_value CheckState_TIMEOUT"
    "check_confirmation_due_at (expired t c) = None" for c
    by (simp_all add: expired_def moved_due finished_state_def)
  then have "\<not> overdue t (expired t c)" for c by (simp add: overdue_def)
  then have "filter (overdue t) (checks (db w')) = []" by (auto simp: rows filter_empty_conv)
  with run rows row show ?thesis by blast
qed

lemma wf_check_world: "wf check_world"
proof -
  have "wf demo_world" using world_ok_demo by (simp add: world_ok_def)
  then show ?thesis by (simp add: check_world_def wf_db_def checks_ok_def demo_check_def)
qed

theorem expiry_exact_witness:
  "\<exists>w'. expire_waiting_checks demo_env (Some 1000000000000) check_world = (Inr 1, w') \<and>
     checks (db w') = [expired 1000000000000 demo_check]"
proof -
  have "overdue 1000000000000 demo_check" by (simp add: overdue_def demo_check_def)
  with expiry_exact [OF demo_env_ok(2) wf_check_world, of 1000000000000] show ?thesis by auto
qed

lemma deadlines_expire:
  assumes "scans_ok E" "wf w" "deadlines_ok (db w)"
  shows "deadlines_ok (db (snd (expire_waiting_checks E now w)))"
proof -
  obtain w' where run: "snd (expire_waiting_checks E now w) = w'"
    and rows: "checks (db w') = map (\<lambda>c. if overdue (fst (now_or E now w)) c then expired (fst (now_or E now w)) c else c)
      (checks (db w))"
    using expire_eq [OF assms(1,2), of now] by auto
  then show ?thesis
    using assms(3) by (auto simp: deadlines_ok_def expired_def moved_due finished_state_def)
qed

text \<open>
  C26. Only waiting checks have a deadline: creating a check, moving a stored one (whatever the
  request and also when it is refused) and expiry keep it so that a check in any other
  state has none, hence can never time out.
\<close>

theorem deadline_only_while_waiting:
  assumes "scans_ok E" "wf w" "deadlines_ok (db w)"
  shows "deadlines_ok (db (snd (create_check E name ext detail now w))) \<and>
    (\<forall>c \<in> set (checks (db w)). deadlines_ok (db (snd (transition_check E c target detail ts now w)))) \<and>
    deadlines_ok (db (snd (expire_waiting_checks E now w)))"
  using deadlines_expire [OF assms] deadlines_transition [OF assms(3)] assms(3)
  by (auto simp: create_check_def Let_def split_beta deadlines_ok_def)

theorem deadline_only_while_waiting_witness:
  "deadlines_ok (db (snd (expire_waiting_checks demo_env None check_world))) \<and>
   deadlines_ok (db (snd (transition_check demo_env demo_check ''failed'' ''no answer'' None None check_world)))"
proof -
  have "deadlines_ok (db check_world)" by (simp add: deadlines_ok_def demo_check_def)
  from deadline_only_while_waiting [OF demo_env_ok(2) wf_check_world this] show ?thesis by simp
qed

lemma world_ok_create_check:
  "ids_ok E \<Longrightarrow> world_ok w \<Longrightarrow> world_ok (snd (create_check E name ext detail now w))"
  by (simp add: world_ok_def wf_create_check) (simp add: create_check_def Let_def split_beta)

lemma world_ok_transition:
  "ids_ok E \<Longrightarrow> world_ok w \<Longrightarrow> world_ok (snd (transition_check E c g d ts now w))"
  by (simp add: world_ok_def wf_transition)

lemma world_ok_expire:
  assumes "ids_ok E" "world_ok w"
  shows "world_ok (snd (expire_waiting_checks E now w))"
proof -
  have "world_ok (snd (for_each (\<lambda>c. transition_check E c g d ts n) cs (snd (now_or E now w))))" for g d ts n cs
  proof (rule for_each_invariant)
    show "world_ok (snd (transition_check E c g d ts n v))" if "world_ok v" for c and v :: world
      using that by (rule world_ok_transition [OF assms(1)])
    show "world_ok (snd (now_or E now w))" using assms(2) by (simp add: world_ok_def)
  qed
  then show ?thesis
    by (simp add: expire_waiting_checks_def split_beta Let_def split: sum.split)
qed

end
