(* ===== verification/Jobs.thy ===== *)
theory Jobs
  imports Processor
begin

text \<open>
  \<open>services/jobs.py\<close>: the health sweep queues a follow-up action for every incident that has
  been open for too long and records the run. The rows are inserted by its final flush, so
  their column defaults are evaluated after \<open>finished_at\<close>. The last section is about sweeps
  that a scheduler repeats.
\<close>

definition is_stale :: "instant \<Rightarrow> incident \<Rightarrow> bool" where
  "is_stale threshold i \<longleftrightarrow>
     incident_state i = incident_state_value IncidentState_OPEN \<and> incident_created_at i \<le> threshold"

definition follow_up_detail :: "int \<Rightarrow> string" where
  "follow_up_detail stale_minutes =
     ''health sweep found incident open for at least '' @ str_int stale_minutes @ '' minutes''"

definition add_follow_up :: "env \<Rightarrow> int \<Rightarrow> incident \<Rightarrow> world \<Rightarrow> world" where
  "add_follow_up E stale_minutes i w =
     snd (add_action E (incident_id i) ''follow_up'' (follow_up_detail stale_minutes) None w)"

definition run_health_sweep :: "env \<Rightarrow> int \<Rightarrow> world \<Rightarrow> int \<times> world" where
  "run_health_sweep E stale_minutes w =
     (let (now, w1) = now_utc E w;
          threshold = now - minutes stale_minutes;
          open_incidents = filter (is_stale threshold) (scan_incidents E (incidents (db w1)));
          actions_created = int (length open_incidents);
          (finished_at, w2) = now_utc E w1;
          w3 = fold (add_follow_up E stale_minutes) open_incidents w2
      in (actions_created,
          add_job E ''health_sweep'' ''succeeded'' (''actions_created='' @ str_int actions_created)
            (Some finished_at) w3))"

section \<open>What the sweep changes\<close>

lemma follow_up_frame [simp]:
  "saved (add_follow_up E m i w) = saved w" "assets (db (add_follow_up E m i w)) = assets (db w)"
  "rules (db (add_follow_up E m i w)) = rules (db w)" "events (db (add_follow_up E m i w)) = events (db w)"
  "incidents (db (add_follow_up E m i w)) = incidents (db w)" "audits (db (add_follow_up E m i w)) = audits (db w)"
  "idems (db (add_follow_up E m i w)) = idems (db w)" "jobs (db (add_follow_up E m i w)) = jobs (db w)"
  "checks (db (add_follow_up E m i w)) = checks (db w)"
  by (simp_all add: add_follow_up_def)

lemma follow_up_reads: "reads (add_follow_up E m i w) = reads w + 2"
  by (simp add: add_follow_up_def add_action_def Let_def)

lemma fold_keeps:
  assumes "\<And>i v. f (g i v) = f v"
  shows "f (fold g is w) = f w"
  by (induction "is" arbitrary: w) (simp_all add: assms)

lemma follow_ups_frame [simp]:
  "saved (fold (add_follow_up E m) is w) = saved w" "assets (db (fold (add_follow_up E m) is w)) = assets (db w)"
  "rules (db (fold (add_follow_up E m) is w)) = rules (db w)" "events (db (fold (add_follow_up E m) is w)) = events (db w)"
  "incidents (db (fold (add_follow_up E m) is w)) = incidents (db w)"
  "audits (db (fold (add_follow_up E m) is w)) = audits (db w)" "idems (db (fold (add_follow_up E m) is w)) = idems (db w)"
  "jobs (db (fold (add_follow_up E m) is w)) = jobs (db w)" "checks (db (fold (add_follow_up E m) is w)) = checks (db w)"
  by (induction "is" arbitrary: w) simp_all

lemma follow_ups_reads: "reads w \<le> reads (fold (add_follow_up E m) is w)"
  by (induction "is" arbitrary: w) (simp, simp, metis add_leD1 follow_up_reads)

definition fresh_follow_up :: "int \<Rightarrow> action \<Rightarrow> bool" where
  "fresh_follow_up stale_minutes a \<longleftrightarrow>
     action_action_type a = ''follow_up'' \<and> action_state a = action_state_value ActionState_QUEUED \<and>
     action_attempts a = 0 \<and> action_next_attempt_at a = None \<and> action_lease_id a = None \<and>
     action_detail a = follow_up_detail stale_minutes"

lemma follow_ups_actions:
  "\<exists>new. actions (db (fold (add_follow_up E m) is w)) = actions (db w) @ new \<and>
     map action_incident_id new = map incident_id is \<and> (\<forall>a \<in> set new. fresh_follow_up m a)"
proof (induction "is" arbitrary: w)
  case Nil
  then show ?case by simp
next
  case (Cons i "is")
  let ?a = "fst (add_action E (incident_id i) ''follow_up'' (follow_up_detail m) None w)"
  have first: "actions (db (add_follow_up E m i w)) = actions (db w) @ [?a]" by (simp add: add_follow_up_def)
  from Cons.IH [of "add_follow_up E m i w"] obtain new where
    "actions (db (fold (add_follow_up E m) is (add_follow_up E m i w))) = actions (db (add_follow_up E m i w)) @ new"
    "map action_incident_id new = map incident_id is" "\<forall>a \<in> set new. fresh_follow_up m a"
    by blast
  with first show ?case by (intro exI [of _ "?a # new"]) (simp add: fresh_follow_up_def)
qed

lemma wf_health_sweep:
  assumes "ids_ok E" "scans_ok E" "wf w"
  shows "wf (snd (run_health_sweep E m w))"
proof -
  have "wf (fold (add_follow_up E m) is v)"
    if "wf v" "\<forall>i \<in> set is. incident_id i \<in> incident_id ` set (incidents (db v))" for "is" v
    using that
  proof (induction "is" arbitrary: v)
    case Nil
    then show ?case by simp
  next
    case (Cons i "is")
    then have "wf (add_follow_up E m i v)"
      unfolding add_follow_up_def using assms(1) by (intro wf_add_action) auto
    with Cons show ?case by simp
  qed
  then show ?thesis
    using assms unfolding run_health_sweep_def
    by (auto simp: Let_def split_beta scan_sets [OF assms(2)] intro!: wf_add_job)
qed

lemma world_ok_health_sweep:
  "ids_ok E \<Longrightarrow> scans_ok E \<Longrightarrow> world_ok w \<Longrightarrow> world_ok (snd (run_health_sweep E m w))"
  by (simp add: world_ok_def wf_health_sweep) (simp add: run_health_sweep_def Let_def split_beta add_job_def)

definition stale_incidents :: "env \<Rightarrow> int \<Rightarrow> world \<Rightarrow> incident list" where
  "stale_incidents E m w =
     filter (\<lambda>i. incident_state i = ''open'' \<and> incident_created_at i + minutes m \<le> clock E (reads w)) (incidents (db w))"

lemma stale_incidents_eq: "stale_incidents E m w = filter (is_stale (clock E (reads w) - minutes m)) (incidents (db w))"
  unfolding stale_incidents_def by (rule filter_cong) (auto simp: is_stale_def state_values)

lemma health_sweep_eq:
  assumes "scans_ok E" "clock_ok E"
  shows "\<exists>n w' new job. run_health_sweep E m w = (n, w') \<and> n = int (length (stale_incidents E m w)) \<and>
    incidents (db w') = incidents (db w) \<and> events (db w') = events (db w) \<and>
    actions (db w') = actions (db w) @ new \<and>
    mset (map action_incident_id new) = mset (map incident_id (stale_incidents E m w)) \<and>
    (\<forall>a \<in> set new. fresh_follow_up m a) \<and> reads w < reads w' \<and>
    jobs (db w') = jobs (db w) @ [job] \<and> job_status job = ''succeeded'' \<and>
    job_detail job = ''actions_created='' @ str_int n \<and>
    (\<exists>t. job_finished_at job = Some t \<and> t \<le> job_started_at job)"
proof -
  let ?due = "filter (is_stale (clock E (reads w) - minutes m)) (scan_incidents E (incidents (db w)))"
  let ?w2 = "snd (now_utc E (snd (now_utc E w)))"
  let ?w3 = "fold (add_follow_up E m) ?due ?w2"
  let ?job = "\<lparr>job_id = new_id E (map job_id (jobs (db w))), job_name = ''health_sweep'', job_status = ''succeeded'',
      job_detail = ''actions_created='' @ str_int (int (length ?due)), job_started_at = clock E (reads ?w3),
      job_finished_at = Some (clock E (reads w + 1))\<rparr>"
  have same: "mset ?due = mset (stale_incidents E m w)"
    using assms(1) by (simp add: scans_ok_def stale_incidents_eq)
  obtain new where new: "actions (db ?w3) = actions (db ?w2) @ new" "map action_incident_id new = map incident_id ?due"
    "\<forall>a \<in> set new. fresh_follow_up m a"
    using follow_ups_actions by blast
  have later: "reads w + 1 \<le> reads ?w3" using follow_ups_reads [of ?w2 E m ?due] by simp
  let ?w' = "add_job E ''health_sweep'' ''succeeded''
      (''actions_created='' @ str_int (int (length ?due))) (Some (clock E (reads w + 1))) ?w3"
  have run: "run_health_sweep E m w = (int (length ?due), ?w')"
    by (simp add: run_health_sweep_def Let_def split_beta)
  have job: "jobs (db ?w') = jobs (db w) @ [?job]" "reads w < reads ?w'"
    using later by (simp_all add: add_job_def)
  have time: "\<exists>t. job_finished_at ?job = Some t \<and> t \<le> job_started_at ?job"
    using later assms(2) by (simp add: clock_ok_def)
  have "mset (map action_incident_id new) = mset (map incident_id (stale_incidents E m w))"
    using same new(2) by simp
  with run job time new(1,3) mset_eq_length [OF same] show ?thesis
    by (intro exI [of _ "int (length ?due)"] exI [of _ ?w'] exI [of _ new] exI [of _ ?job]) simp
qed

text \<open>
  C27. The health sweep is exact about whom it follows up: it returns the number of incidents
  that are open and at least \<open>stale_minutes\<close> old, queues exactly one fresh \<open>follow_up\<close>
  action for each of them and leaves every incident, event and existing action as it is.
  Its job row carries that number; the finishing time it records is never after the
  starting time, since the default of \<open>started_at\<close> is evaluated by the later flush.
\<close>

theorem health_sweep_exact:
  assumes "scans_ok E" "clock_ok E"
  shows "\<exists>n w' new job. run_health_sweep E m w = (n, w') \<and> n = int (length (stale_incidents E m w)) \<and>
    incidents (db w') = incidents (db w) \<and> events (db w') = events (db w) \<and>
    actions (db w') = actions (db w) @ new \<and>
    mset (map action_incident_id new) = mset (map incident_id (stale_incidents E m w)) \<and>
    (\<forall>a \<in> set new. fresh_follow_up m a) \<and>
    jobs (db w') = jobs (db w) @ [job] \<and> job_detail job = ''actions_created='' @ str_int n \<and>
    (\<exists>t. job_finished_at job = Some t \<and> t \<le> job_started_at job)"
  using health_sweep_eq [OF assms, of m w] by blast

theorem health_sweep_exact_witness:
  "\<exists>w'. run_health_sweep demo_env 0 demo_world1 = (1, w') \<and>
     (\<exists>a. actions (db w') = [demo_action, a] \<and> action_incident_id a = 1 \<and> fresh_follow_up 0 a)"
proof -
  have stale: "stale_incidents demo_env 0 demo_world1 = [demo_incident]"
    by (simp add: stale_incidents_def demo_incident_def minutes_def state_values)
  from health_sweep_exact [OF demo_env_ok(2,3), of 0 demo_world1] obtain w' new where
    "run_health_sweep demo_env 0 demo_world1 = (1, w')" "actions (db w') = [demo_action] @ new"
    "mset (map action_incident_id new) = {#1#}" "\<forall>a \<in> set new. fresh_follow_up 0 a"
    unfolding stale by (auto simp: demo_incident_def)
  moreover from this(3) obtain a where "new = [a]" "action_incident_id a = 1"
    by (cases new) (auto simp: add_mset_eq_single)
  ultimately show ?thesis by auto
qed

section \<open>Repeated sweeps\<close>

lemma sweep_grows:
  assumes "scans_ok E" "clock_ok E" "run_health_sweep E m w = (n, w')"
  shows "n = int (length (stale_incidents E m w))" "queue_backlog (db w') = queue_backlog (db w) + n"
    "length (stale_incidents E m w) \<le> length (stale_incidents E m w')"
proof -
  obtain new where new: "actions (db w') = actions (db w) @ new" "\<forall>a \<in> set new. fresh_follow_up m a"
    "mset (map action_incident_id new) = mset (map incident_id (stale_incidents E m w))"
    and n: "n = int (length (stale_incidents E m w))" and kept: "incidents (db w') = incidents (db w)" "reads w < reads w'"
    using health_sweep_eq [OF assms(1,2), of m w] assms(3) by auto
  have "length new = length (stale_incidents E m w)" using mset_eq_length [OF new(3)] by simp
  moreover have "filter in_backlog new = new"
    using new(2) by (simp add: filter_id_conv fresh_follow_up_def in_backlog_def)
  ultimately show "queue_backlog (db w') = queue_backlog (db w) + n" using new(1) n by (simp add: queue_backlog_def)
  have later: "clock E (reads w) \<le> clock E (reads w')" using kept(2) assms(2) by (simp add: clock_ok_def)
  have more: "length (filter P xs) \<le> length (filter Q xs)" if "\<And>x. P x \<Longrightarrow> Q x" for P Q and xs :: "incident list"
    using that by (induction xs) auto
  show "length (stale_incidents E m w) \<le> length (stale_incidents E m w')"
    unfolding stale_incidents_def kept(1) by (rule more) (use later in auto)
  show "n = int (length (stale_incidents E m w))" by (rule n)
qed

text \<open>
  The health sweep is neither idempotent nor subject to the backlog limit: the next sweep
  queues at least as many follow-ups again, also for the incidents that already have one.
\<close>

lemma health_sweep_repeats:
  assumes "scans_ok E" "clock_ok E"
    and "run_health_sweep E m w = (n, w1)" "run_health_sweep E m w1 = (n', w2)"
  shows "queue_backlog (db w1) = queue_backlog (db w) + n \<and> n \<le> n' \<and>
    queue_backlog (db w2) = queue_backlog (db w) + n + n'"
  using sweep_grows [OF assms(1-3)] sweep_grows [OF assms(1,2,4)] by simp

lemma health_sweep_repeats_witness:
  "\<exists>n w1 n' w2. run_health_sweep demo_env 0 demo_world1 = (n, w1) \<and> run_health_sweep demo_env 0 w1 = (n', w2) \<and>
     n \<le> n' \<and> queue_backlog (db w2) = 1 + n + n'"
proof -
  obtain n w1 n' w2 where run: "run_health_sweep demo_env 0 demo_world1 = (n, w1)" "run_health_sweep demo_env 0 w1 = (n', w2)"
    by fastforce
  have "queue_backlog (db demo_world1) = 1" by (simp add: queue_backlog_def in_backlog_def demo_action_def)
  with health_sweep_repeats [OF demo_env_ok(2,3) run] run show ?thesis by auto
qed

section \<open>The scheduler\<close>

text \<open>
  \<open>build_scheduler\<close> hands one job to APScheduler: an interval trigger of five minutes, under an
  identifier that replaces a job of the same name. What the scheduler does with it is its
  documented behaviour: it calls the job again and again. \<open>sweeps\<close> is the state after a
  number of such calls with the health sweep as the job.
\<close>

record 'j scheduled_job =
  sj_job :: 'j
  sj_trigger :: string
  sj_minutes :: int
  sj_id :: string
  sj_replace_existing :: bool

definition build_scheduler :: "'j \<Rightarrow> 'j scheduled_job list" where
  "build_scheduler job =
     [\<lparr>sj_job = job, sj_trigger = ''interval'', sj_minutes = 5, sj_id = ''health_sweep'', sj_replace_existing = True\<rparr>]"

definition fire :: "(world \<Rightarrow> world) scheduled_job list \<Rightarrow> world \<Rightarrow> world" where
  "fire js w = fold sj_job js w"

definition sweeps :: "env \<Rightarrow> int \<Rightarrow> nat \<Rightarrow> world \<Rightarrow> world" where
  "sweeps E m n = fire (build_scheduler (\<lambda>w. snd (run_health_sweep E m w))) ^^ n"

lemma fire_sweep: "fire (build_scheduler (\<lambda>w. snd (run_health_sweep E m w))) w = snd (run_health_sweep E m w)"
  by (simp add: fire_def build_scheduler_def)

lemma sweeps_simps [simp]:
  "sweeps E m 0 w = w" "sweeps E m (Suc n) w = snd (run_health_sweep E m (sweeps E m n w))"
  by (simp_all add: sweeps_def fire_sweep)

lemma sweeps_assets: "assets (db (sweeps E m n w)) = assets (db w)"
proof (induction n)
  case (Suc n)
  have "assets (db (snd (run_health_sweep E m v))) = assets (db v)" for v
    by (simp add: run_health_sweep_def Let_def split_beta)
  with Suc show ?case by simp
qed simp

lemma sweeps_pile_up:
  assumes "scans_ok E" "clock_ok E"
  shows "length (stale_incidents E m w) \<le> length (stale_incidents E m (sweeps E m n w)) \<and>
    queue_backlog (db w) + int n * int (length (stale_incidents E m w)) \<le> queue_backlog (db (sweeps E m n w))"
proof (induction n)
  case 0
  then show ?case by simp
next
  case (Suc n)
  let ?v = "sweeps E m n w"
  obtain k v' where run: "run_health_sweep E m ?v = (k, v')" by fastforce
  have "sweeps E m (Suc n) w = v'" using run by simp
  moreover note sweep_grows [OF assms run]
  ultimately show ?case using Suc by (simp add: algebra_simps)
qed

text \<open>
  C28. Repeated sweeps starve the event processor: as long as one incident stays open and
  stale and nobody works on the queue, each scheduled sweep queues follow-ups again, so that
  after at most \<open>max_queue_backlog\<close> sweeps no event gets an action any more, whatever rule
  it matches.
\<close>

theorem sweeps_starve_queue:
  assumes "scans_ok E" "clock_ok E" "stale_incidents E m w \<noteq> []" "max_queue_backlog (cfg E) \<le> int n"
    and "process_new E p (sweeps E m n w) = (Inr (e, i, a, sk), w')"
  shows "a = None \<and> actions (db w') = actions (db (sweeps E m n w)) \<and> int n \<le> queue_backlog (db w')"
proof -
  have "1 \<le> int (length (stale_incidents E m w))" using assms(3) by (cases "stale_incidents E m w") simp_all
  then have "int n \<le> int n * int (length (stale_incidents E m w))"
    using mult_left_mono [of 1 "int (length (stale_incidents E m w))" "int n"] by simp
  moreover have "0 \<le> queue_backlog (db w)" by (simp add: queue_backlog_def)
  ultimately have full: "int n \<le> queue_backlog (db (sweeps E m n w))"
    using sweeps_pile_up [OF assms(1,2), of m w n] by linarith
  with assms(4) have "a = None \<and> actions (db w') = actions (db (sweeps E m n w))"
    by (intro process_new_full [OF assms(5)]) simp
  with full show ?thesis by (simp add: queue_backlog_def)
qed

text \<open>Ten thousand sweeps with the default settings, after which the demo event gets no action.\<close>

theorem sweeps_starve_queue_witness:
  "\<exists>e i sk w'. process_new demo_env demo_payload (sweeps demo_env 0 10000 demo_world1) = (Inr (e, i, None, sk), w') \<and>
     10000 \<le> queue_backlog (db w')"
proof -
  let ?v = "sweeps demo_env 0 10000 demo_world1"
  have stale: "stale_incidents demo_env 0 demo_world1 \<noteq> []"
    by (simp add: stale_incidents_def demo_incident_def minutes_def state_values)
  have limit: "max_queue_backlog (cfg demo_env) \<le> int 10000" by (simp add: default_settings_def)
  have "find_asset (ec_asset_external_id demo_payload) ?v = find_asset (ec_asset_external_id demo_payload) demo_world1"
    by (simp add: find_asset_def sweeps_assets)
  then have "find_asset (ec_asset_external_id demo_payload) ?v \<noteq> None"
    by (simp add: find_asset_def demo_world1_def demo_world_eq demo_payload_def)
  then obtain e i a sk w' where run: "process_new demo_env demo_payload ?v = (Inr (e, i, a, sk), w')"
    using process_new_total by (metis prod.collapse prod_cases4)
  from sweeps_starve_queue [OF demo_env_ok(2,3) stale limit run] run show ?thesis by auto
qed

end
