(* ===== verification/Api.thy ===== *)
theory Api
  imports Idempotency Worker Checks Jobs "HOL-Library.Char_ord" "HOL-Library.List_Lexorder"
begin

text \<open>
  \<open>api/app.py\<close>: the routes, the session dependency that makes each request one unit of
  work, and the metrics. A request carries its parsed body; FastAPI's answer to an invalid
  body (422) and to an exception that is not an \<open>HTTPException\<close> (500) are part of
  \<open>serve\<close>.
\<close>

section \<open>Routes\<close>

definition get_session :: "(world \<Rightarrow> 'a outcome) \<Rightarrow> world \<Rightarrow> 'a outcome" where
  "get_session endpoint w =
     (case endpoint (open_session w) of
        (Inr x, w1) \<Rightarrow> (Inr x, close_session (commit w1))
      | (Inl e, w1) \<Rightarrow> (Inl e, close_session (rollback w1)))"

interpretation request_scope: unit_of_work get_session
  by unfold_locales
    (auto simp: get_session_def open_session_def close_session_def split_beta split: sum.split)

definition health :: string where
  "health = ''ok''"

definition ready :: "world \<Rightarrow> string \<times> int" where
  "ready w = (''ready'', int (length (assets (db w))))"

definition seed :: "env \<Rightarrow> world \<Rightarrow> string outcome" where
  "seed E w =
     (case seed_demo_data E w of (Inl e, w1) \<Rightarrow> (Inl e, w1) | (Inr _, w1) \<Rightarrow> (Inr ''seeded'', w1))"

definition create_asset :: "env \<Rightarrow> asset_create \<Rightarrow> world \<Rightarrow> asset_read outcome" where
  "create_asset E p w =
     (if find_asset (ac_external_id p) w \<noteq> None
      then (Inl (HTTPException 409 ''asset already exists''), w)
      else case add_asset E (ac_external_id p) (ac_name p) (ac_group p) ''registered'' w of
             (Inl e, w1) \<Rightarrow> (Inl e, w1) | (Inr a, w1) \<Rightarrow> (Inr (asset_read_of a), w1))"

definition list_assets :: "world \<Rightarrow> asset_read list" where
  "list_assets w = map asset_read_of (sort_key asset_external_id (assets (db w)))"

definition create_rule :: "env \<Rightarrow> rule_create \<Rightarrow> world \<Rightarrow> rule_read outcome" where
  "create_rule E p w =
     (case add_rule E (rc_name p) (rc_category p) (rc_minimum_severity p) (rc_cooldown_minutes p)
             (rc_action_type p) (rc_enabled p) w of
        (Inl e, w1) \<Rightarrow> (Inl e, w1) | (Inr r, w1) \<Rightarrow> (Inr (rule_read_of r), w1))"

definition list_rules :: "env \<Rightarrow> world \<Rightarrow> rule_read list" where
  "list_rules E w = map rule_read_of (sort_key rule_name (scan_rules E (rules (db w))))"

definition ingest_event :: "env \<Rightarrow> event_create \<Rightarrow> world \<Rightarrow> process_response outcome" where
  "ingest_event E p w =
     (case process E p w of
        (Inl (UnknownAssetError _), w1) \<Rightarrow> (Inl (HTTPException 404 ''asset not found''), w1)
      | (Inl e, w1) \<Rightarrow> (Inl e, w1)
      | (Inr (event, incident, action, skipped_reason, replay), w1) \<Rightarrow>
          (Inr \<lparr>pr_event = event_read_of event, pr_incident = map_option incident_read_of incident,
                pr_action = map_option action_read_of action, pr_skipped_reason = skipped_reason,
                pr_idempotency_key = ec_idempotency_key p, pr_idempotent_replay = replay\<rparr>, w1))"

definition list_incidents :: "env \<Rightarrow> world \<Rightarrow> incident_read list" where
  "list_incidents E w =
     map incident_read_of (sort_key (\<lambda>i. - incident_created_at i) (scan_incidents E (incidents (db w))))"

definition list_actions :: "env \<Rightarrow> world \<Rightarrow> action_read list" where
  "list_actions E w =
     map action_read_of (sort_key (\<lambda>a. - action_created_at a) (scan_actions E (actions (db w))))"

definition process_actions :: "env \<Rightarrow> world \<Rightarrow> action_stats outcome" where
  "process_actions E =
     process_due_actions E 100 (action_max_attempts (cfg E)) (action_timeout_seconds (cfg E))
       (action_retry_delay_seconds (cfg E)) (action_lease_seconds (cfg E)) default_transport None"

definition create_check_run :: "env \<Rightarrow> check_create \<Rightarrow> world \<Rightarrow> check_read outcome" where
  "create_check_run E p w =
     (case create_check E (cc_name p) (cc_asset_external_id p) (cc_detail p) None w of
        (Inl e, w1) \<Rightarrow> (Inl e, w1) | (Inr c, w1) \<Rightarrow> (Inr (check_read_of c), w1))"

text \<open>
  The identifier in the path is any integer; the driver refuses one that is not a 64-bit
  integer of SQLite.
\<close>

definition sqlite_integer :: "int \<Rightarrow> bool" where
  "sqlite_integer k \<longleftrightarrow> - (2 ^ 63) \<le> k \<and> k < 2 ^ 63"

definition transition_check_run :: "env \<Rightarrow> int \<Rightarrow> check_transition \<Rightarrow> world \<Rightarrow> check_read outcome" where
  "transition_check_run E k p w =
     (if \<not> sqlite_integer k then (Inl OverflowError, w)
      else case get_check w k of
        None \<Rightarrow> (Inl (HTTPException 404 ''check not found''), w)
      | Some c \<Rightarrow>
          (case transition_check E c (ct_target_state p) (ct_detail p) (ct_timeout_seconds p) None w of
             (Inl (InvalidCheckTransition msg), w1) \<Rightarrow> (Inl (HTTPException 409 msg), w1)
           | (Inl e, w1) \<Rightarrow> (Inl e, w1)
           | (Inr c1, w1) \<Rightarrow> (Inr (check_read_of c1), w1)))"

definition expire_check_timeouts :: "env \<Rightarrow> world \<Rightarrow> int outcome" where
  "expire_check_timeouts E w = expire_waiting_checks E None w"

record audit_entry =
  ae_id :: int
  ae_event_type :: string
  ae_entity_type :: string
  ae_entity_id :: int
  ae_message :: string

definition audit :: "env \<Rightarrow> world \<Rightarrow> audit_entry list" where
  "audit E w =
     map (\<lambda>r. \<lparr>ae_id = audit_id r, ae_event_type = audit_event_type r, ae_entity_type = audit_entity_type r,
               ae_entity_id = audit_entity_id r, ae_message = audit_message r\<rparr>)
       (take 100 (sort_key (\<lambda>r. - audit_created_at r) (scan_audits E (audits (db w)))))"

definition reset_workload :: "world \<Rightarrow> world" where
  "reset_workload w =
     w\<lparr>db := (db w)\<lparr>audits := [], idems := [], checks := [], actions := [], incidents := [],
                     events := [], jobs := []\<rparr>\<rparr>"

definition health_sweep :: "env \<Rightarrow> world \<Rightarrow> job_result \<times> world" where
  "health_sweep E w =
     (let (n, w1) = run_health_sweep E 30 w
      in (\<lparr>jr_job_name = ''health_sweep'', jr_status = ''succeeded'', jr_actions_created = n\<rparr>, w1))"

section \<open>Metrics\<close>

text \<open>
  The metrics record has one field per value; keys of the response that repeat a value
  (\<open>events_received\<close>, \<open>incidents_created\<close>, \<open>actions_queued\<close>, \<open>actions_failed\<close>,
  \<open>cooldown_suppressions\<close>, \<open>retries\<close>) are computed by the same expression as the field they
  repeat. Seconds are exact rationals, rounded like \<open>round(x, 3)\<close>.
\<close>

record metrics =
  m_events :: int
  m_incidents :: int
  m_actions :: int
  m_queued_actions :: int
  m_retry_actions :: int
  m_succeeded_actions :: int
  m_failed_actions :: int
  m_actions_processed :: int
  m_permanent_failures :: int
  m_cooldown_suppressions :: int
  m_idempotency_hits :: int
  m_queue_backlog :: int
  m_oldest_queued_item_seconds :: rat
  m_action_latency_seconds :: rat
  m_retry_attempts :: int
  m_audit_entries :: int

definition round3 :: "rat \<Rightarrow> rat" where
  "round3 x = of_int (round_half_even (x * 1000)) / 1000"

definition total_seconds :: "int \<Rightarrow> rat" where
  "total_seconds us = of_int us / 1000000"

definition is_processed :: "action \<Rightarrow> bool" where
  "is_processed a \<longleftrightarrow>
     action_state a \<in> {action_state_value ActionState_SUCCEEDED, action_state_value ActionState_FAILED}"

definition retry_attempts :: "action list \<Rightarrow> int" where
  "retry_attempts as = sum_list (map (\<lambda>a. max (action_attempts a - 1) 0) as)"

definition count_audits :: "string \<Rightarrow> database \<Rightarrow> int" where
  "count_audits ty d = int (length (filter (\<lambda>r. audit_event_type r = ty) (audits d)))"

definition action_latency :: "action list \<Rightarrow> rat" where
  "action_latency as =
     (let latencies = map (\<lambda>a. max (total_seconds (action_updated_at a - action_created_at a)) 0)
                        (filter is_processed as)
      in if latencies \<noteq> [] then round3 (sum_list latencies / of_nat (length latencies)) else 0)"

text \<open>
  \<open>contains\<close> is \<open>LIKE '%needle%'\<close>, which SQLite matches without case for ASCII letters; the
  needle is in lower case and has no wildcard.
\<close>

definition like_contains :: "string \<Rightarrow> string \<Rightarrow> bool" where
  "like_contains needle s = str_in needle (str_lower s)"

text \<open>The age of the oldest queued action; the clock is read only when there is one.\<close>

definition oldest_queued_age :: "env \<Rightarrow> world \<Rightarrow> rat \<times> world" where
  "oldest_queued_age E w =
     (case filter in_backlog (actions (db w)) of
        [] \<Rightarrow> (0, w)
      | a # as \<Rightarrow>
          let (current_time, w1) = now_utc E w;
              age = (\<lambda>x. total_seconds (current_time - action_created_at x))
          in (foldr (\<lambda>x m. max (age x) m) as (age a), w1))"

definition metrics_of :: "env \<Rightarrow> world \<Rightarrow> metrics \<times> world" where
  "metrics_of E w =
     (let d = db w; as = actions d; (age, w1) = oldest_queued_age E w
      in (\<lparr>m_events = int (length (events d)), m_incidents = int (length (incidents d)),
           m_actions = int (length as),
           m_queued_actions = count_state ActionState_QUEUED as,
           m_retry_actions = count_state ActionState_RETRY as,
           m_succeeded_actions = count_state ActionState_SUCCEEDED as,
           m_failed_actions = count_state ActionState_FAILED as,
           m_actions_processed = int (length (filter is_processed as)),
           m_permanent_failures = int (length (filter (\<lambda>a. action_state a = action_state_value ActionState_FAILED \<and>
             like_contains ''permanent'' (action_detail a)) as)),
           m_cooldown_suppressions = count_audits ''event_suppressed'' d,
           m_idempotency_hits = count_audits ''idempotency_hit'' d,
           m_queue_backlog = int (length (filter in_backlog as)),
           m_oldest_queued_item_seconds = round3 age,
           m_action_latency_seconds = action_latency as,
           m_retry_attempts = retry_attempts as,
           m_audit_entries = int (length (audits d))\<rparr>, w1))"

section \<open>Serving a request\<close>

datatype request =
    GetHealth
  | GetReady
  | PostDemoSeed
  | PostAssets asset_create
  | GetAssets
  | PostRules rule_create
  | GetRules
  | PostEvents event_create
  | GetIncidents
  | GetActions
  | GetMetrics
  | PostProcessActions
  | PostChecks check_create
  | PostCheckTransition int check_transition
  | PostExpireTimeouts
  | GetAudit
  | DeleteAdminReset
  | PostHealthSweep

datatype response =
    R_status string
  | R_ready "string \<times> int"
  | R_asset asset_read
  | R_assets "asset_read list"
  | R_rule rule_read
  | R_rules "rule_read list"
  | R_processed process_response
  | R_incidents "incident_read list"
  | R_actions "action_read list"
  | R_metrics metrics
  | R_action_stats action_stats
  | R_check check_read
  | R_expired int
  | R_audit "audit_entry list"
  | R_job job_result

definition valid_request :: "request \<Rightarrow> bool" where
  "valid_request r =
     (case r of
        PostAssets p \<Rightarrow> valid_asset_create p
      | PostRules p \<Rightarrow> valid_rule_create p
      | PostEvents p \<Rightarrow> valid_event_create p
      | PostChecks p \<Rightarrow> valid_check_create p
      | PostCheckTransition _ p \<Rightarrow> valid_check_transition p
      | _ \<Rightarrow> True)"

definition returning :: "('a \<Rightarrow> response) \<Rightarrow> 'a outcome \<Rightarrow> response outcome" where
  "returning f o' = (case o' of (Inl e, w) \<Rightarrow> (Inl e, w) | (Inr x, w) \<Rightarrow> (Inr (f x), w))"

definition endpoint :: "env \<Rightarrow> request \<Rightarrow> world \<Rightarrow> response outcome" where
  "endpoint E r w =
     (case r of
        GetHealth \<Rightarrow> (Inr (R_status health), w)
      | GetReady \<Rightarrow> (Inr (R_ready (ready w)), w)
      | PostDemoSeed \<Rightarrow> returning R_status (seed E w)
      | PostAssets p \<Rightarrow> returning R_asset (create_asset E p w)
      | GetAssets \<Rightarrow> (Inr (R_assets (list_assets w)), w)
      | PostRules p \<Rightarrow> returning R_rule (create_rule E p w)
      | GetRules \<Rightarrow> (Inr (R_rules (list_rules E w)), w)
      | PostEvents p \<Rightarrow> returning R_processed (ingest_event E p w)
      | GetIncidents \<Rightarrow> (Inr (R_incidents (list_incidents E w)), w)
      | GetActions \<Rightarrow> (Inr (R_actions (list_actions E w)), w)
      | GetMetrics \<Rightarrow> (let (m, w1) = metrics_of E w in (Inr (R_metrics m), w1))
      | PostProcessActions \<Rightarrow> returning R_action_stats (process_actions E w)
      | PostChecks p \<Rightarrow> returning R_check (create_check_run E p w)
      | PostCheckTransition k p \<Rightarrow> returning R_check (transition_check_run E k p w)
      | PostExpireTimeouts \<Rightarrow> returning R_expired (expire_check_timeouts E w)
      | GetAudit \<Rightarrow> (Inr (R_audit (audit E w)), w)
      | DeleteAdminReset \<Rightarrow> (Inr (R_status ''reset''), reset_workload w)
      | PostHealthSweep \<Rightarrow> (let (j, w1) = health_sweep E w in (Inr (R_job j), w1)))"

datatype http = HTTP_OK response | HTTP_Error int

definition status_of :: "exn + response \<Rightarrow> http" where
  "status_of x =
     (case x of
        Inr r \<Rightarrow> HTTP_OK r
      | Inl (HTTPException code _) \<Rightarrow> HTTP_Error code
      | Inl _ \<Rightarrow> HTTP_Error 500)"

definition serve :: "env \<Rightarrow> request \<Rightarrow> world \<Rightarrow> http \<times> world" where
  "serve E r w =
     (if \<not> valid_request r then (HTTP_Error 422, w)
      else let (x, w1) = get_session (endpoint E r) w in (status_of x, w1))"

end
