(* ===== verification/Service.thy ===== *)
theory Service
  imports Api
begin

text \<open>
  The service as a whole: sequences of requests and worker runs against one database.
  Every reachable database satisfies the invariant, a failed request changes nothing, an
  idempotency key is answered exactly once, incidents of a rule with a cooldown are spaced
  by it, the event endpoint only fails for unknown assets, and the metrics add up.
\<close>

section \<open>Reachable worlds\<close>

inductive reachable :: "env \<Rightarrow> world \<Rightarrow> bool" for E :: env where
  start: "reachable E \<lparr>db = empty_database, saved = empty_database, reads = n\<rparr>"
| request: "reachable E w \<Longrightarrow> reachable E (snd (serve E r w))"
| worker: "reachable E w \<Longrightarrow> reachable E (snd (run_once E wk limit now w))"

definition env_ok :: "env \<Rightarrow> bool" where
  "env_ok E \<longleftrightarrow> ids_ok E \<and> scans_ok E \<and> clock_ok E \<and> alone E"

lemma env_okD:
  assumes "env_ok E"
  shows "ids_ok E" "scans_ok E" "clock_ok E" "alone E" "peers_ok E"
  using assms by (simp_all add: env_ok_def alone_peers_ok)

lemma demo_env_env_ok [simp]: "env_ok demo_env"
  by (simp add: env_ok_def)

lemma returning_simps [simp]:
  "snd (returning f x) = snd x" "fst (returning f x) = Inl e \<longleftrightarrow> fst x = Inl e"
  by (simp_all add: returning_def split_beta split: sum.split)

lemma metrics_frame [simp]: "db (snd (metrics_of E w)) = db w" "saved (snd (metrics_of E w)) = saved w"
  by (simp_all add: metrics_of_def oldest_queued_age_def Let_def split_beta split: list.split)

lemma wf_reset: "wf w \<Longrightarrow> wf (reset_workload w)"
  by (auto simp: wf_db_def reset_workload_def table_ok_defs)

lemma snd_create_asset:
  "snd (create_asset E p w) = (if find_asset (ac_external_id p) w \<noteq> None then w
     else snd (add_asset E (ac_external_id p) (ac_name p) (ac_group p) ''registered'' w))"
  by (simp add: create_asset_def split_beta split: sum.split)

lemma snd_create_rule:
  "snd (create_rule E p w) = snd (add_rule E (rc_name p) (rc_category p) (rc_minimum_severity p)
     (rc_cooldown_minutes p) (rc_action_type p) (rc_enabled p) w)"
  by (simp add: create_rule_def split_beta split: sum.split)

lemma snd_ingest_event: "snd (ingest_event E p w) = snd (process E p w)"
  by (simp add: ingest_event_def split_beta split: sum.split exn.split prod.split)

lemma snd_create_check_run:
  "snd (create_check_run E p w) = snd (create_check E (cc_name p) (cc_asset_external_id p) (cc_detail p) None w)"
  by (simp add: create_check_run_def split_beta split: sum.split)

lemma snd_transition_check_run:
  "snd (transition_check_run E k p w) = (case (if sqlite_integer k then get_check w k else None) of None \<Rightarrow> w
     | Some c \<Rightarrow> snd (transition_check E c (ct_target_state p) (ct_detail p) (ct_timeout_seconds p) None w))"
  by (simp add: transition_check_run_def split_beta split: option.split sum.split exn.split)

lemma snd_seed: "snd (seed E w) = snd (seed_demo_data E w)"
  by (simp add: seed_def split_beta split: sum.split)

lemmas snd_endpoints =
  snd_create_asset snd_create_rule snd_ingest_event snd_create_check_run snd_transition_check_run snd_seed
  expire_check_timeouts_def process_actions_def health_sweep_def

lemma world_ok_endpoint:
  assumes E: "ids_ok E" "scans_ok E" "peers_ok E" and w: "world_ok w"
  shows "world_ok (snd (endpoint E r w))"
proof -
  have wf: "wf w" "wf_db (saved w)" using w by (simp_all add: world_ok_def)
  have "world_ok (snd (metrics_of E w))" using w by (simp add: world_ok_def)
  moreover have "world_ok (reset_workload w)"
    using wf_reset [OF wf(1)] wf(2) by (simp add: world_ok_def reset_workload_def)
  ultimately show ?thesis
    using E w wf
    by (cases r)
      (auto simp: endpoint_def snd_endpoints split_beta Let_def world_ok_def [of "snd (add_asset _ _ _ _ _ _)"]
        world_ok_def [of "snd (add_rule _ _ _ _ _ _ _ _)"]
        intro: world_ok_seed world_ok_process world_ok_process_due world_ok_create_check world_ok_transition
          world_ok_expire world_ok_health_sweep wf_add_asset wf_add_rule split: option.split)
qed

text \<open>The tables a processing with a key leaves to \<open>process_new\<close>.\<close>

definition core_rows where
  "core_rows d = (rules d, events d, incidents d, actions d, jobs d, checks d)"

lemma core_replay [simp]: "core_rows (db (snd (replay_idempotent_record E r w))) = core_rows (db w)"
  by (simp add: core_rows_def)

lemma core_wait:
  assumes "alone E"
  shows "core_rows (db (snd (wait_for_idempotent_result E k n w))) = core_rows (db w) \<and>
    saved (snd (wait_for_idempotent_result E k n w)) = saved w"
proof (induction n arbitrary: w)
  case 0
  then show ?case by simp
next
  case (Suc n)
  show ?case
    using Suc [of "peer_commit E w"] assms
    by (simp del: wait_for_idempotent_result.simps(2) add: wait_step)
qed

text \<open>
  Without other sessions, processing an event either leaves those tables alone, or leaves
  them as \<open>process_new\<close> does.
\<close>

lemma process_core:
  assumes "alone E" "db w = saved w"
  shows "core_rows (db (snd (process E p w))) = core_rows (db w) \<or>
     (\<exists>w1. core_rows (db w1) = core_rows (db w) \<and> assets (db w1) = assets (db w) \<and>
        core_rows (db (snd (process E p w))) = core_rows (db (snd (process_new E p w1))) \<and>
        (\<forall>e i a sk. fst (process_new E p w1) = Inr (e, i, a, sk) \<longrightarrow> fst (process E p w) = Inr (e, i, a, sk, False)) \<and>
        (\<forall>x. fst (process_new E p w1) = Inl x \<longrightarrow> fst (process E p w) = Inl x))"
proof (cases "truthy (ec_idempotency_key p)")
  case False
  have "snd (process E p w) = snd (process_new E p w)"
    "\<forall>e i a sk. fst (process_new E p w) = Inr (e, i, a, sk) \<longrightarrow> fst (process E p w) = Inr (e, i, a, sk, False)"
    "\<forall>x. fst (process_new E p w) = Inl x \<longrightarrow> fst (process E p w) = Inl x"
    using False by (simp_all add: process_def split_beta split: sum.split)
  then show ?thesis by (intro disjI2 exI [of _ w]) simp_all
next
  case True
  then obtain k where k: "ec_idempotency_key p = Some k" "k \<noteq> []" by (auto simp: truthy_def split: option.splits)
  show ?thesis
  proof (cases "find_idem k w")
    case None
    obtain r w1 where w1: "db w1 = with_record r (db w)"
      and run: "process E p w = finish_key E r (process_new E p w1)"
      by (rule process_unused_key [OF assms k None])
    have "core_rows (db (snd (process E p w))) = core_rows (db (snd (process_new E p w1)))"
      "\<forall>e i a sk. fst (process_new E p w1) = Inr (e, i, a, sk) \<longrightarrow> fst (process E p w) = Inr (e, i, a, sk, False)"
      "\<forall>x. fst (process_new E p w1) = Inl x \<longrightarrow> fst (process E p w) = Inl x"
      unfolding run by (simp_all add: finish_key_def core_rows_def split_beta split: sum.split)
    then show ?thesis using w1 by (intro disjI2 exI [of _ w1]) (simp_all add: core_rows_def)
  next
    case (Some r)
    show ?thesis
    proof (cases "idem_event_id r")
      case None
      then show ?thesis using process_left_key [OF assms k Some] by simp
    next
      case (Some e)
      then show ?thesis
        using process_key [OF k, of E w] process_replays [OF \<open>find_idem k w = Some r\<close>] by simp
    qed
  qed
qed

text \<open>The record of a key as the processing of the event \<open>p\<close> leaves it when it fails.\<close>

definition left_record :: "env \<Rightarrow> event_create \<Rightarrow> idempotency_record \<Rightarrow> database \<Rightarrow> bool" where
  "left_record E p q d \<longleftrightarrow>
     (\<exists>k. ec_idempotency_key p = Some k \<and> k \<noteq> [] \<and> k \<notin> idem_key ` set (idems d) \<and> bare_record k q) \<and>
     idem_id q = new_id E (map idem_id (idems d))"

lemma core_with_record [simp]: "core_rows (with_record q d) = core_rows d"
  by (simp add: core_rows_def)

lemma wf_with_record:
  assumes "ids_ok E" "wf_db d" "left_record E p q d"
  shows "wf_db (with_record q d)"
  using assms ids_okD [OF assms(1), of "map idem_id (idems d)"]
  by (auto simp: wf_db_def idems_ok_def left_record_def bare_record_def idem_linked_def)

lemma process_saved:
  assumes "alone E" "db w = saved w"
  shows "saved (snd (process E p w)) = saved w \<or>
    (\<exists>q. left_record E p q (saved w) \<and> saved (snd (process E p w)) = with_record q (saved w))"
proof (cases "truthy (ec_idempotency_key p)")
  case False
  then show ?thesis by (simp add: process_def split_beta split: sum.split)
next
  case True
  then obtain k where k: "ec_idempotency_key p = Some k" "k \<noteq> []" by (auto simp: truthy_def split: option.splits)
  show ?thesis
  proof (cases "find_idem k w")
    case None
    obtain r w1 where w1: "bare_record k r" "idem_id r = new_id E (map idem_id (idems (db w)))"
        "db w1 = with_record r (db w)" "saved w1 = db w1"
      and run: "process E p w = finish_key E r (process_new E p w1)"
      by (rule process_unused_key [OF assms k None])
    have "saved (snd (process E p w)) = saved w1" unfolding run by simp
    moreover have "left_record E p r (saved w)"
      using None k w1(1,2) assms(2) by (simp add: left_record_def find_idem_None_iff)
    ultimately show ?thesis using w1(3,4) assms(2) by auto
  next
    case (Some r)
    show ?thesis
    proof (cases "idem_event_id r")
      case None
      then show ?thesis using process_left_key [OF assms k Some] by simp
    next
      case (Some e)
      then show ?thesis
        using process_key [OF k, of E w] process_replays [OF \<open>find_idem k w = Some r\<close>] by simp
    qed
  qed
qed

section \<open>What a request commits\<close>

text \<open>Only a successful seed commits before the request ends.\<close>

lemma seed_saved:
  "saved (snd (seed_demo_data E w)) =
     (case fst (seed_demo_data E w) of Inr _ \<Rightarrow> if assets (db w) \<noteq> [] then saved w else db (snd (seed_demo_data E w))
      | Inl _ \<Rightarrow> saved w)"
proof (cases "assets (db w) = []")
  case True
  obtain x w1 where l1: "for_each (\<lambda>(ext, name, grp). add_asset E ext name grp ''unknown'') demo_assets w = (x, w1)"
    by fastforce
  obtain y w2 where l2: "for_each (\<lambda>(name, cat, minsev, cooldown, ty).
      add_rule E name cat minsev cooldown ty True) demo_rules w1 = (y, w2)"
    by fastforce
  have "saved w1 = saved w" "saved w2 = saved w1"
    using saved_for_each_seed(1) l1 saved_for_each_seed(2) l2 by (metis snd_conv)+
  then show ?thesis using True l1 l2 by (simp add: seed_demo_data_def split: sum.split)
next
  case False
  then show ?thesis by (simp add: seed_demo_data_def)
qed

lemma valid_key_nonempty: "valid_event_create p \<Longrightarrow> ec_idempotency_key p = Some k \<Longrightarrow> k \<noteq> []"
  by (auto simp: valid_event_create_def len_between_def)

lemma endpoint_saved:
  assumes "alone E" "db w = saved w"
  shows "saved (snd (endpoint E r w)) = saved w \<or>
    (r = PostDemoSeed \<and> (\<exists>x. fst (endpoint E r w) = Inr x) \<and> saved (snd (endpoint E r w)) = db (snd (endpoint E r w))) \<or>
    (\<exists>p q. r = PostEvents p \<and> left_record E p q (saved w) \<and> saved (snd (endpoint E r w)) = with_record q (saved w))"
proof (cases "\<exists>p. r = PostEvents p")
  case True
  then obtain p where r: "r = PostEvents p" by blast
  have "saved (snd (endpoint E r w)) = saved (snd (process E p w))"
    by (simp add: r endpoint_def snd_ingest_event)
  with process_saved [OF assms, of p] r show ?thesis by auto
next
  case no_event: False
  have "saved (snd (expire_waiting_checks E None w)) = saved w"
  proof -
    have "saved (snd (for_each (\<lambda>c. transition_check E c g d ts n) cs (snd (now_or E None w)))) = saved w" for g d ts n cs
      by (rule for_each_invariant) simp_all
    then show ?thesis by (simp add: expire_waiting_checks_def split_beta Let_def split: sum.split)
  qed
  moreover have "saved (snd (create_check E name ext detail None w)) = saved w" for name ext detail
    by (simp add: create_check_def Let_def split_beta)
  moreover have "saved (snd (run_health_sweep E m w)) = saved w" for m
    by (simp add: run_health_sweep_def Let_def split_beta)
  moreover have "saved (snd (seed E w)) = saved w \<or>
      (\<exists>x. fst (seed E w) = Inr x) \<and> saved (snd (seed E w)) = db (snd (seed E w))"
    using seed_saved [of E w]
    by (cases "fst (seed_demo_data E w)") (auto simp: snd_seed seed_def split_beta split: if_splits)
  moreover have "saved (snd (add_asset E a b c d w)) = saved w" for a b c d by simp
  ultimately have "saved (snd (endpoint E r w)) = saved w \<or>
      (r = PostDemoSeed \<and> (\<exists>x. fst (endpoint E r w) = Inr x) \<and> saved (snd (endpoint E r w)) = db (snd (endpoint E r w)))"
    using no_event
    by (cases r)
      (auto simp: endpoint_def snd_endpoints split_beta Let_def reset_workload_def returning_def
        split: option.split sum.splits)
  then show ?thesis by blast
qed

text \<open>
  A request that leaves something behind when it fails: an event with an unused key, for an
  asset that is not registered.
\<close>

definition leaves_key :: "request \<Rightarrow> database \<Rightarrow> bool" where
  "leaves_key r d \<longleftrightarrow>
     (\<exists>p k. r = PostEvents p \<and> valid_event_create p \<and> ec_idempotency_key p = Some k \<and>
        k \<notin> idem_key ` set (idems d) \<and> ec_asset_external_id p \<notin> asset_external_id ` set (assets d))"

lemma find_asset_None_iff: "find_asset x w = None \<longleftrightarrow> x \<notin> asset_external_id ` set (assets (db w))"
  by (simp add: find_asset_def find_row_None_iff)

lemma process_fails:
  assumes "alone E" "db w = saved w" "valid_event_create p" "fst (process E p w) = Inl e"
  shows "if leaves_key (PostEvents p) (db w)
    then e = UnknownAssetError (ec_asset_external_id p) \<and>
      (\<exists>q. left_record E p q (db w) \<and> saved (snd (process E p w)) = with_record q (db w))
    else saved (snd (process E p w)) = db w"
proof (cases "ec_idempotency_key p")
  case None
  then show ?thesis
    using assms(2) by (simp add: leaves_key_def process_def truthy_def split_beta split: sum.split)
next
  case (Some k)
  have k: "k \<noteq> []" by (rule valid_key_nonempty [OF assms(3) Some])
  show ?thesis
  proof (cases "find_idem k w")
    case None
    obtain r w1 where w1: "bare_record k r" "idem_id r = new_id E (map idem_id (idems (db w)))"
        "db w1 = with_record r (db w)" "saved w1 = db w1"
      and run: "process E p w = finish_key E r (process_new E p w1)"
      by (rule process_unused_key [OF assms(1,2) Some k None])
    have left: "left_record E p r (db w)"
      using None Some k w1(1,2) by (simp add: left_record_def find_idem_None_iff)
    obtain x w2 where new: "process_new E p w1 = (x, w2)" by fastforce
    have x: "x = Inl e" using assms(4) new unfolding run by (cases x) auto
    have unknown: "find_asset (ec_asset_external_id p) w1 = None" using process_new_InlD [of E p w1 e] new x by simp
    then have e: "e = UnknownAssetError (ec_asset_external_id p)" and w2: "w2 = w1"
      using new x by (simp_all add: process_new_unknown)
    have "leaves_key (PostEvents p) (db w)"
      using unknown None Some assms(3) w1(3) by (simp add: leaves_key_def find_asset_None_iff find_idem_None_iff)
    then show ?thesis using e left new x w2 w1(3,4) run by auto
  next
    case (Some r)
    then have used: "\<not> leaves_key (PostEvents p) (db w)"
      using \<open>ec_idempotency_key p = Some k\<close> find_idem_None_iff [of k w] by (simp add: leaves_key_def)
    have "saved (snd (process E p w)) = saved w"
      using process_left_key(3) [OF assms(1,2) \<open>ec_idempotency_key p = Some k\<close> k Some]
        process_key [OF \<open>ec_idempotency_key p = Some k\<close> k, of E w] process_replays [OF Some]
      by (cases "idem_event_id r") auto
    then show ?thesis using used assms(2) by simp
  qed
qed

text \<open>
  C3. What a failed request leaves behind. A request that is answered with an error changes
  nothing in the database, whatever the route, the body and the exception, with one
  exception: a valid event with an unused key for an unregistered asset, which is answered
  404, leaves the record of its key, without a result, because the nested transaction that
  inserts it has committed it by then.
\<close>

theorem failed_request_leaves_at_most_a_key:
  assumes "alone E" "serve E r w = (HTTP_Error code, w')" "db w = saved w"
  shows "saved w' = db w' \<and>
    (if leaves_key r (db w)
     then code = 404 \<and> (\<exists>p k q. r = PostEvents p \<and> ec_idempotency_key p = Some k \<and> bare_record k q \<and>
       db w' = (db w)\<lparr>idems := idems (db w) @ [q]\<rparr>)
     else db w' = db w)"
proof (cases "valid_request r")
  case False
  then have "\<not> leaves_key r (db w)" by (auto simp: leaves_key_def valid_request_def)
  then show ?thesis using False assms(2,3) by (simp add: serve_def)
next
  case True
  have same: "rollback w = w" using assms(3) by (simp add: rollback_def)
  obtain x v where v: "get_session (endpoint E r) w = (x, v)" by fastforce
  with True assms(2) have run: "get_session (endpoint E r) w = (x, w')" and code: "status_of x = HTTP_Error code"
    by (simp_all add: serve_def)
  then obtain e where x: "x = Inl e" by (cases x) (simp_all add: status_of_def)
  have fails: "fst (endpoint E r w) = Inl e" using request_scope.run_result [of "endpoint E r" w] run x same by simp
  have stored: "saved w' = saved (snd (endpoint E r w))" "db w' = saved w'"
    using request_scope.run_saved [of "endpoint E r" w] request_scope.run_clean [of "endpoint E r" w] run fails same
    by simp_all
  show ?thesis
  proof (cases "\<exists>p. r = PostEvents p")
    case False
    then have "\<not> leaves_key r (db w)" by (simp add: leaves_key_def)
    with endpoint_saved [OF assms(1,3), of r] False fails stored assms(3) show ?thesis by auto
  next
    case event: True
    then obtain p where r: "r = PostEvents p" by blast
    then have valid: "valid_event_create p" using True by (simp add: valid_request_def)
    obtain o1 u where proc: "process E p w = (o1, u)" by fastforce
    have u: "snd (endpoint E r w) = u" using proc by (simp add: r endpoint_def snd_ingest_event)
    obtain e1 where o1: "o1 = Inl e1" and e: "e = (case e1 of UnknownAssetError _ \<Rightarrow> HTTPException 404 ''asset not found'' | _ \<Rightarrow> e1)"
      using fails proc by (auto simp: r endpoint_def returning_def ingest_event_def split: sum.splits exn.splits)
    have kept: "if leaves_key r (db w)
      then e1 = UnknownAssetError (ec_asset_external_id p) \<and>
        (\<exists>q. left_record E p q (db w) \<and> saved u = with_record q (db w))
      else saved u = db w"
    proof -
      have "fst (process E p w) = Inl e1" using proc o1 by simp
      from process_fails [OF assms(1,3) valid this] show ?thesis unfolding r proc snd_conv .
    qed
    show ?thesis
    proof (cases "leaves_key r (db w)")
      case False
      then show ?thesis using kept stored u by simp
    next
      case True
      then obtain q where q: "left_record E p q (db w)" "saved u = with_record q (db w)"
        and e1: "e1 = UnknownAssetError (ec_asset_external_id p)"
        using kept by auto
      have "code = 404" using code x e e1 by (simp add: status_of_def)
      moreover have "db w' = (db w)\<lparr>idems := idems (db w) @ [q]\<rparr>"
        using stored u q(2) by (simp add: with_record_def)
      ultimately show ?thesis
        using True r q(1) stored by (auto simp: left_record_def)
    qed
  qed
qed

text \<open>A request for an asset nobody registered.\<close>

definition unknown_payload :: event_create where
  "unknown_payload = keyed_payload\<lparr>ec_asset_external_id := ''PUMP-999''\<rparr>"

lemma valid_demo_payloads [simp]:
  "valid_event_create demo_payload" "valid_event_create keyed_payload" "valid_event_create reusing_payload"
  "valid_event_create unknown_payload"
  unfolding valid_event_create_def len_between_def demo_payload_def keyed_payload_def
      reusing_payload_def battery_payload_def unknown_payload_def by simp_all

lemma serve_unknown:
  "\<exists>w'. serve demo_env (PostEvents unknown_payload) demo_world = (HTTP_Error 404, w')"
  by (simp add: serve_def valid_request_def get_session_def endpoint_def returning_def ingest_event_def
      process_def truthy_def process_with_idempotency_def find_idem_def peer_commit_def open_session_def rollback_def
      release_savepoint_def commit_def
      add_idem_def Let_def process_new_def find_asset_def demo_world_eq unknown_payload_def keyed_payload_def
      demo_payload_def status_of_def valid_event_create_def len_between_def)

lemma unknown_fields [simp]:
  "ec_idempotency_key unknown_payload = Some ''intent-demo-0001''" "ec_asset_external_id unknown_payload = ''PUMP-999''"
  by (simp_all add: unknown_payload_def)

lemma unknown_leaves_key: "leaves_key (PostEvents unknown_payload) (db demo_world)"
  by (simp add: leaves_key_def) (simp add: demo_world_eq)

theorem failed_request_leaves_at_most_a_key_witness:
  "\<exists>w' q. serve demo_env (PostEvents unknown_payload) demo_world = (HTTP_Error 404, w') \<and>
     saved w' = (db demo_world)\<lparr>idems := [q]\<rparr> \<and> bare_record ''intent-demo-0001'' q"
proof -
  obtain w' where run: "serve demo_env (PostEvents unknown_payload) demo_world = (HTTP_Error 404, w')"
    using serve_unknown by blast
  have "db demo_world = saved demo_world" by simp
  from failed_request_leaves_at_most_a_key [OF demo_alone run this] unknown_leaves_key run
  show ?thesis by auto
qed

section \<open>The invariant of reachable worlds\<close>

text \<open>
  A property of databases that every endpoint keeps when it returns is an invariant of the
  reachable worlds.
\<close>

lemma serve_invariant:
  assumes "alone E" "I (saved w)" "db w = saved w"
    and "\<And>v x. valid_request r \<Longrightarrow> I (db v) \<Longrightarrow> saved v = db v \<Longrightarrow> fst (endpoint E r v) = Inr x \<Longrightarrow>
      I (db (snd (endpoint E r v)))"
    and "\<And>p q d. r = PostEvents p \<Longrightarrow> valid_event_create p \<Longrightarrow> I d \<Longrightarrow> left_record E p q d \<Longrightarrow> I (with_record q d)"
  shows "I (saved (snd (serve E r w))) \<and> db (snd (serve E r w)) = saved (snd (serve E r w))"
proof (cases "valid_request r")
  case False
  then show ?thesis using assms(2,3) by (simp add: serve_def)
next
  case True
  have clean: "db (snd (get_session (endpoint E r) w)) = saved (snd (get_session (endpoint E r) w))"
    by (rule request_scope.run_clean)
  have "I (saved (snd (get_session (endpoint E r) w)))"
  proof (cases "fst (endpoint E r (rollback w))")
    case (Inl e)
    then consider "saved (snd (endpoint E r (rollback w))) = saved w"
      | p q where "r = PostEvents p" "left_record E p q (saved w)"
        "saved (snd (endpoint E r (rollback w))) = with_record q (saved w)"
      using endpoint_saved [OF assms(1), of "rollback w" r] by auto
    then have "I (saved (snd (endpoint E r (rollback w))))"
      using assms(2,5) True by cases (auto simp: valid_request_def)
    then show ?thesis using request_scope.run_saved [of "endpoint E r" w] Inl by simp
  next
    case (Inr x)
    then show ?thesis
      using request_scope.run_saved [of "endpoint E r" w] assms(4) [of "rollback w" x] assms(2) True by simp
  qed
  with clean True show ?thesis by (simp add: serve_def split_beta)
qed

lemma worker_invariant:
  assumes "I (saved w)"
    and "\<And>v m ts d ls. I (db v) \<Longrightarrow> saved v = db v \<Longrightarrow>
      I (db (snd (process_due_actions E limit m ts d ls default_transport now v)))"
  shows "I (saved (snd (run_once E wk limit now w))) \<and> db (snd (run_once E wk limit now w)) = saved (snd (run_once E wk limit now w))"
proof -
  let ?body = "process_due_actions E limit (worker_max_attempts wk) (worker_timeout_seconds wk)
      (worker_retry_delay_seconds wk) (worker_lease_seconds wk) default_transport now"
  have "I (db (snd (?body (rollback w))))" using assms by simp
  then have "I (saved (snd (in_worker_session ?body w)))"
    using worker_scope.run_saved [of ?body w] assms(1) by (simp split: sum.split)
  then show ?thesis using worker_scope.run_clean [of ?body w] by (simp add: run_once_def)
qed

lemma reachable_invariant:
  assumes "env_ok E" "reachable E w" and "I empty_database"
    and "\<And>r v x. valid_request r \<Longrightarrow> wf v \<Longrightarrow> I (db v) \<Longrightarrow> saved v = db v \<Longrightarrow> fst (endpoint E r v) = Inr x \<Longrightarrow> I (db (snd (endpoint E r v)))"
    and "\<And>limit m ts d ls now v. wf v \<Longrightarrow> I (db v) \<Longrightarrow> saved v = db v \<Longrightarrow>
      I (db (snd (process_due_actions E limit m ts d ls default_transport now v)))"
    and "\<And>p q d. valid_event_create p \<Longrightarrow> I d \<Longrightarrow> left_record E p q d \<Longrightarrow> I (with_record q d)"
  shows "wf_db (saved w) \<and> I (saved w) \<and> db w = saved w"
  using assms(2)
proof (induction rule: reachable.induct)
  case (start n)
  then show ?case using assms(3) wf_empty by simp
next
  case (request w r)
  note E = env_okD [OF assms(1)]
  have "wf_db (db (snd (endpoint E r v))) \<and> I (db (snd (endpoint E r v)))"
    if "valid_request r" "wf_db (db v) \<and> I (db v)" "saved v = db v" "fst (endpoint E r v) = Inr x" for v x
    using world_ok_endpoint [OF E(1,2,5), of v r] assms(4) [of r v x] that by (simp add: world_ok_def)
  moreover have "wf_db (with_record q d) \<and> I (with_record q d)"
    if "r = PostEvents p" "valid_event_create p" "wf_db d \<and> I d" "left_record E p q d" for p q d
    using that assms(6) wf_with_record [OF E(1)] by blast
  ultimately show ?case using serve_invariant [of E "\<lambda>d. wf_db d \<and> I d" w r] E(4) request.IH by blast
next
  case (worker w wk limit now)
  note E = env_okD [OF assms(1)]
  have "wf_db (db (snd (process_due_actions E limit m ts d ls default_transport now v))) \<and>
      I (db (snd (process_due_actions E limit m ts d ls default_transport now v)))"
    if "wf_db (db v) \<and> I (db v)" "saved v = db v" for m ts d ls v
    using world_ok_process_due [OF E(1,2), of v limit m ts d ls default_transport now] that
      assms(5) [of v limit m ts d ls now] by (simp add: world_ok_def)
  with worker_invariant [of "\<lambda>d. wf_db d \<and> I d" w E limit now wk] worker.IH show ?case by blast
qed

section \<open>Spacing of incidents\<close>

text \<open>
  All incidents are open (no operation resolves one), and two incidents of one asset under
  one rule with a cooldown are more than the cooldown apart.
\<close>

definition spaced :: "database \<Rightarrow> bool" where
  "spaced d \<longleftrightarrow>
     (\<forall>i \<in> set (incidents d). incident_state i = incident_state_value IncidentState_OPEN) \<and>
     (\<forall>r \<in> set (rules d). \<forall>i \<in> set (incidents d). \<forall>j \<in> set (incidents d).
        0 < rule_cooldown_minutes r \<longrightarrow> incident_rule_id i = rule_id r \<longrightarrow> incident_rule_id j = rule_id r \<longrightarrow>
        incident_asset_id i = incident_asset_id j \<longrightarrow> incident_id i \<noteq> incident_id j \<longrightarrow>
        incident_created_at i + minutes (rule_cooldown_minutes r) < incident_created_at j \<or>
        incident_created_at j + minutes (rule_cooldown_minutes r) < incident_created_at i)"

lemma spaced_core: "core_rows d = core_rows d' \<Longrightarrow> spaced d = spaced d'"
  by (simp add: core_rows_def spaced_def)

lemma spaced_add_incident:
  assumes "spaced d" "distinct (map rule_id (rules d))" "incidents d' = incidents d @ [i]" "rules d' = rules d"
    and "incident_state i = incident_state_value IncidentState_OPEN"
    and "r \<in> set (rules d)" "rule_id r = incident_rule_id i"
    and "0 < rule_cooldown_minutes r \<Longrightarrow> \<forall>j \<in> set (incidents d). incident_asset_id j = incident_asset_id i \<longrightarrow>
      incident_state j \<noteq> incident_state_value IncidentState_RESOLVED \<longrightarrow>
      incident_created_at j + minutes (rule_cooldown_minutes r) < incident_created_at i"
  shows "spaced d'"
proof -
  have only: "q = r" if "q \<in> set (rules d)" "rule_id q = incident_rule_id i" for q
    using that assms(2,6,7) by (metis distinct_map inj_onD)
  have older: "incident_created_at j + minutes (rule_cooldown_minutes q) < incident_created_at i"
    if "q \<in> set (rules d)" "rule_id q = incident_rule_id i" "0 < rule_cooldown_minutes q"
      "j \<in> set (incidents d)" "incident_asset_id j = incident_asset_id i" for q j
    using only [OF that(1,2)] that(3-5) assms(1,8) by (simp add: spaced_def)
  show ?thesis
    unfolding spaced_def assms(3,4)
  proof (intro conjI ballI impI)
    fix j assume "j \<in> set (incidents d @ [i])"
    then show "incident_state j = incident_state_value IncidentState_OPEN"
      using assms(1,5) by (auto simp: spaced_def)
  next
    fix q j k assume q: "q \<in> set (rules d)" "0 < rule_cooldown_minutes q"
      and j: "j \<in> set (incidents d @ [i])" "incident_rule_id j = rule_id q"
      and k: "k \<in> set (incidents d @ [i])" "incident_rule_id k = rule_id q"
      and jk: "incident_asset_id j = incident_asset_id k" "incident_id j \<noteq> incident_id k"
    consider "j \<in> set (incidents d)" "k \<in> set (incidents d)" | "j = i" "k \<in> set (incidents d)"
      | "k = i" "j \<in> set (incidents d)" using j(1) k(1) jk(2) by auto
    then show "incident_created_at j + minutes (rule_cooldown_minutes q) < incident_created_at k \<or>
        incident_created_at k + minutes (rule_cooldown_minutes q) < incident_created_at j"
    proof cases
      case 1
      then show ?thesis using assms(1) q j(2) k(2) jk by (simp add: spaced_def)
    next
      case 2
      then show ?thesis using older [of q k] q j(2) k(2) jk by simp
    next
      case 3
      then show ?thesis using older [of q j] q j(2) k(2) jk by simp
    qed
  qed
qed

lemma spaced_process_new:
  assumes "scans_ok E" "clock_ok E" "distinct (map rule_id (rules (db w)))" "spaced (db w)"
  shows "spaced (db (snd (process_new E p w)))"
proof (cases "fst (process_new E p w)")
  case (Inl x)
  then have "snd (process_new E p w) = w"
    by (auto simp: process_new_def Let_def split_beta split: option.splits if_splits)
  with assms(4) show ?thesis by simp
next
  case (Inr x)
  obtain e i a sk where x: "x = (e, i, a, sk)" by (cases x) auto
  let ?w' = "snd (process_new E p w)"
  have run: "process_new E p w = (Inr (e, i, a, sk), ?w')" using Inr x by (simp add: prod_eq_iff)
  have incs: "incidents (db ?w') = incidents (db w) @ rows_of i" using process_new_rows [OF run] by blast
  have rules: "rules (db ?w') = rules (db w)" by simp
  show ?thesis
  proof (cases i)
    case None
    with incs rules assms(4) show ?thesis by (simp add: spaced_def rows_of_def)
  next
    case (Some j)
    note run' = run [unfolded Some]
    obtain r where r: "r \<in> set (rules (db w))" "rule_id r = incident_rule_id j"
      "0 < rule_cooldown_minutes r \<longrightarrow> (\<forall>k \<in> set (incidents (db w)). incident_asset_id k = incident_asset_id j \<longrightarrow>
          incident_state k \<noteq> incident_state_value IncidentState_RESOLVED \<longrightarrow>
          incident_created_at k + minutes (rule_cooldown_minutes r) < incident_created_at j)"
      using process_new_spacing [OF assms(1,2) run'] by blast
    have "incidents (db ?w') = incidents (db w) @ [j]" using incs Some by (simp add: rows_of_def)
    from spaced_add_incident [OF assms(4,3) this rules process_new_open [OF run'] r(1,2)] r(3)
    show ?thesis by blast
  qed
qed

text \<open>The requests other than events only add rules, or forget the incidents.\<close>

lemma seed_assets_keep:
  "core_rows (db (snd (for_each (\<lambda>(ext, name, grp). add_asset E ext name grp st) as w))) = core_rows (db w)"
  "idems (db (snd (for_each (\<lambda>(ext, name, grp). add_asset E ext name grp st) as w))) = idems (db w)"
  by (rule for_each_invariant, auto simp: core_rows_def)+

definition rules_extended :: "database \<Rightarrow> database \<Rightarrow> bool" where
  "rules_extended d d' \<longleftrightarrow> (\<exists>new. rules d' = rules d @ new) \<and> events d' = events d \<and>
     incidents d' = incidents d \<and> idems d' = idems d"

lemma rules_extended_trans: "rules_extended d d' \<Longrightarrow> rules_extended d' d'' \<Longrightarrow> rules_extended d d''"
  by (auto simp: rules_extended_def)

lemma add_rule_extends: "rules_extended (db w) (db (snd (add_rule E a b c d e f w)))"
  by (simp add: rules_extended_def add_rule_def Let_def)

interpretation extended: state_order "\<lambda>v w. rules_extended (db v) (db w)"
  by unfold_locales (simp add: rules_extended_def, rule rules_extended_trans)

lemma seed_rules_keep:
  "rules_extended (db w) (db (snd (for_each (\<lambda>(name, cat, minsev, cooldown, ty).
     add_rule E name cat minsev cooldown ty b) rs w)))"
  by (rule extended.for_each_le) (auto simp: split_beta intro: add_rule_extends)

lemma seed_core:
  assumes "saved w = db w"
  shows "rules_extended (db w) (db (snd (seed_demo_data E w)))"
proof -
  obtain x w1 where l1: "for_each (\<lambda>(ext, name, grp). add_asset E ext name grp ''unknown'') demo_assets w = (x, w1)"
    by fastforce
  obtain y w2 where l2: "for_each (\<lambda>(name, cat, minsev, cooldown, ty).
      add_rule E name cat minsev cooldown ty True) demo_rules w1 = (y, w2)"
    by fastforce
  have w1: "core_rows (db w1) = core_rows (db w)" "idems (db w1) = idems (db w)" "saved w1 = saved w"
    using seed_assets_keep saved_for_each_seed(1) l1 by (metis snd_conv)+
  have w2: "rules_extended (db w1) (db w2)" "saved w2 = saved w1"
    using seed_rules_keep saved_for_each_seed(2) l2 by (metis snd_conv)+
  have "rules_extended (db w) (db w2)" "rules_extended (db w) (db w)"
    using w1 w2 by (auto simp: rules_extended_def core_rows_def)
  then show ?thesis
    using l1 l2 w1(3) w2(2) assms by (auto simp: seed_demo_data_def split: sum.split)
qed

lemma rules_extended_refl [simp]: "rules_extended d d"
  by (simp add: rules_extended_def)

lemma process_due_extends: "rules_extended (db w) (db (snd (process_due_actions E limit m ts d ls T now w)))"
proof -
  have "rules_extended (db w) (db (snd (for_each (lease_and_execute E m ts d T l t) due (snd (uuid4_hex E (snd (now_or E now w)))))))"
    for l t due by (simp add: rules_extended_def uuid4_hex_def)
  then show ?thesis by (simp add: process_due_actions_def split_beta Let_def split: sum.split)
qed

lemma expire_extends: "rules_extended (db w) (db (snd (expire_waiting_checks E now w)))"
proof -
  have "rules_extended (db v) (db (snd (for_each (\<lambda>c. transition_check E c g d ts n) cs v)))" for g d ts n cs and v :: world
    by (rule extended.for_each_le) (simp add: rules_extended_def)
  from this [where v = "snd (now_or E now w)"] show ?thesis
    by (simp add: expire_waiting_checks_def split_beta Let_def split: sum.split)
qed

lemma endpoint_extends:
  assumes "saved v = db v" "\<And>p. r \<noteq> PostEvents p" "r \<noteq> DeleteAdminReset"
  shows "rules_extended (db v) (db (snd (endpoint E r v)))"
proof -
  have check: "rules_extended (db v) (db (snd (transition_check E c g d ts n v)))" for c g d ts n
    by (simp add: rules_extended_def)
  have other: "rules_extended (db v) (db (snd (create_check E name ext detail n v)))"
    "rules_extended (db v) (db (snd (add_asset E a b c d v)))"
    "rules_extended (db v) (db (snd (run_health_sweep E m v)))" for name ext detail n a b c d m
    by (simp_all add: rules_extended_def create_check_def run_health_sweep_def Let_def split_beta)
  show ?thesis
    using assms seed_core [OF assms(1)] process_due_extends expire_extends add_rule_extends check other
    by (cases r) (auto simp: endpoint_def snd_endpoints split_beta Let_def split: option.split)
qed

lemma spaced_extended:
  assumes "wf_db d" "wf_db d'" "rules_extended d d'" "spaced d"
  shows "spaced d'"
proof -
  obtain new where new: "rules d' = rules d @ new" "incidents d' = incidents d"
    using assms(3) by (auto simp: rules_extended_def)
  have old: "r \<in> set (rules d)"
    if r: "r \<in> set (rules d')" and i: "i \<in> set (incidents d)" "incident_rule_id i = rule_id r" for r i
  proof -
    have "incident_justified (rules d) (events d) i"
      using assms(1) i(1) by (simp add: wf_db_def incidents_ok_def)
    then obtain q where q: "q \<in> set (rules d)" "rule_id q = rule_id r" using i(2) by (auto simp: incident_justified_def)
    have "distinct (map rule_id (rules d'))" using assms(2) by (simp add: wf_db_def rules_ok_def)
    then have "inj_on rule_id (set (rules d'))" by (simp only: distinct_map)
    moreover have "q \<in> set (rules d')" using q(1) new(1) by simp
    ultimately have "q = r" using q(2) r by (metis inj_onD)
    with q show ?thesis by simp
  qed
  show ?thesis
    unfolding spaced_def new(2) using assms(4) old by (auto simp: spaced_def)
qed

lemma spaced_process:
  assumes "env_ok E" "wf v" "spaced (db v)" "saved v = db v"
  shows "spaced (db (snd (process E p v)))"
proof (cases "core_rows (db (snd (process E p v))) = core_rows (db v)")
  case True
  then show ?thesis using spaced_core [of "db (snd (process E p v))" "db v"] assms(3) by auto
next
  case False
  note E = env_okD [OF assms(1)]
  obtain w1 where w1: "core_rows (db w1) = core_rows (db v)"
    "core_rows (db (snd (process E p v))) = core_rows (db (snd (process_new E p w1)))"
    using process_core [OF E(4), of v p] assms(4) False by auto
  have "rules (db w1) = rules (db v)" using w1(1) by (simp add: core_rows_def)
  then have "distinct (map rule_id (rules (db w1)))" using assms(2) by (simp add: wf_db_def rules_ok_def)
  from spaced_process_new [OF E(2,3) this] w1 assms(3) spaced_core show ?thesis by blast
qed

lemma spaced_endpoint:
  assumes "env_ok E" "wf v" "spaced (db v)" "saved v = db v"
  shows "spaced (db (snd (endpoint E q v)))"
proof -
  note E = env_okD [OF assms(1)]
  have wf': "wf (snd (endpoint E q v))"
    using world_ok_endpoint [OF E(1,2,5), of v q] assms(2,4) by (simp add: world_ok_def)
  consider p where "q = PostEvents p" | "q = DeleteAdminReset" | "\<And>p. q \<noteq> PostEvents p" "q \<noteq> DeleteAdminReset"
    by blast
  then show ?thesis
  proof cases
    case 1
    then show ?thesis using spaced_process [OF assms] by (simp add: endpoint_def snd_ingest_event)
  next
    case 2
    then show ?thesis by (simp add: endpoint_def reset_workload_def spaced_def)
  next
    case 3
    then show ?thesis using spaced_extended [OF assms(2) wf' endpoint_extends [OF assms(4) 3] assms(3)] by blast
  qed
qed

lemma reachable_spaced:
  assumes "env_ok E" "reachable E w"
  shows "spaced (db w)"
proof -
  have empty: "spaced empty_database" by (simp add: spaced_def)
  have work: "spaced (db (snd (process_due_actions E limit m ts d ls default_transport now v)))"
    if "wf v" "spaced (db v)" "saved v = db v" for limit m ts d ls now v
    using spaced_extended [OF that(1) _ process_due_extends that(2)]
      world_ok_process_due [OF env_okD(1,2) [OF assms(1)], of v] that
    by (simp add: world_ok_def)
  have endp: "spaced (db (snd (endpoint E q v)))" if "wf v" "spaced (db v)" "saved v = db v" for q v
    using assms(1) that by (rule spaced_endpoint)
  have left: "spaced (with_record q d)" if "spaced d" for q d
    using that spaced_core [of "with_record q d" d] by simp
  have "spaced (saved w) \<and> db w = saved w"
    using reachable_invariant [of E w spaced, OF assms empty endp work left] by blast
  then show ?thesis by simp
qed

text \<open>
  C2. No alert storms: in every reachable database every incident is still open, and any
  two incidents of the same asset under the same rule are more than the rule's cooldown
  apart, if it has one.
\<close>

theorem incidents_spaced:
  assumes "env_ok E" "reachable E w"
  shows "(\<forall>i \<in> set (incidents (db w)). incident_state i = ''open'') \<and>
    (\<forall>r \<in> set (rules (db w)). \<forall>i \<in> set (incidents (db w)). \<forall>j \<in> set (incidents (db w)).
       0 < rule_cooldown_minutes r \<and> incident_rule_id i = rule_id r \<and> incident_rule_id j = rule_id r \<and>
       incident_asset_id i = incident_asset_id j \<and> incident_id i \<noteq> incident_id j \<longrightarrow>
       minutes (rule_cooldown_minutes r) < \<bar>incident_created_at i - incident_created_at j\<bar>)"
  using reachable_spaced [OF assms] by (fastforce simp: spaced_def state_values)

text \<open>A slow deployment: an hour passes between two readings of the clock.\<close>

definition slow_env :: env where
  "slow_env = demo_env\<lparr>clock := (\<lambda>n. int n * minutes 60)\<rparr>"

lemma slow_env_ok: "env_ok slow_env"
proof -
  have "clock_ok slow_env" by (simp add: clock_ok_def slow_env_def minutes_def)
  moreover have "ids_ok slow_env" "scans_ok slow_env" "alone slow_env"
    using demo_env_ok demo_alone by (simp_all add: slow_env_def ids_ok_def scans_ok_def alone_def)
  ultimately show ?thesis by (simp add: env_ok_def)
qed

lemma slow_seeded: "snd (serve slow_env PostDemoSeed \<lparr>db = empty_database, saved = empty_database, reads = 0\<rparr>) = demo_world"
  by (simp add: serve_def valid_request_def get_session_def endpoint_def snd_seed seed_def seed_demo_data_def
      slow_env_def demo_assets_def demo_rules_def add_asset_def add_rule_def sqlite_new_id_def commit_def Let_def
      open_session_def close_session_def rollback_def demo_world_eq empty_database_def returning_def)

lemma two_storms:
  "\<exists>i j. incidents (db (snd (serve slow_env (PostEvents demo_payload)
      (snd (serve slow_env (PostEvents demo_payload) demo_world))))) = [i, j] \<and>
      incident_id i = 1 \<and> incident_id j = 2 \<and> incident_rule_id i = 1 \<and> incident_rule_id j = 1 \<and>
      incident_asset_id i = 1 \<and> incident_asset_id j = 1"
  by (simp add: serve_def valid_request_def valid_event_create_def len_between_def get_session_def endpoint_def
      returning_def ingest_event_def slow_env_def
      processor_eval truthy_def open_session_def close_session_def rollback_def commit_def demo_world_eq demo_payload_def)

theorem incidents_spaced_witness:
  "\<exists>w i j. reachable slow_env w \<and> i \<in> set (incidents (db w)) \<and> j \<in> set (incidents (db w)) \<and>
     incident_id i \<noteq> incident_id j \<and> minutes 20 < \<bar>incident_created_at i - incident_created_at j\<bar> \<and>
     incident_state i = ''open''"
proof -
  let ?w2 = "snd (serve slow_env (PostEvents demo_payload) demo_world)"
  let ?w3 = "snd (serve slow_env (PostEvents demo_payload) ?w2)"
  have "reachable slow_env demo_world"
    using reachable.request [OF reachable.start [of slow_env 0], of PostDemoSeed] by (simp add: slow_seeded)
  then have reach: "reachable slow_env ?w2" "reachable slow_env ?w3" by (simp_all add: reachable.request)
  obtain i j where ij: "incidents (db ?w3) = [i, j]" "incident_id i = 1" "incident_id j = 2" "incident_rule_id i = 1"
    "incident_rule_id j = 1" "incident_asset_id i = 1" "incident_asset_id j = 1"
    using two_storms by blast
  let ?r = "hd (rules (db demo_world))"
  have "rules (db (snd (serve slow_env (PostEvents demo_payload) w))) = rules (db w)" if "saved w = db w" for w
  proof -
    have "rules (db (snd (process slow_env demo_payload (rollback w)))) = rules (db w)"
      using that by (simp add: process_def truthy_def demo_payload_def split_beta split: sum.split)
    moreover have "saved (snd (process slow_env demo_payload (rollback w))) = saved w"
      by (simp add: process_def truthy_def demo_payload_def split_beta split: sum.split)
    ultimately show ?thesis
      using that by (auto simp: serve_def get_session_def endpoint_def open_session_def close_session_def
          snd_ingest_event split_beta split: sum.split)
  qed
  moreover have "saved ?w2 = db ?w2"
    using serve_invariant [of slow_env "\<lambda>_. True" demo_world "PostEvents demo_payload"] env_okD(4) [OF slow_env_ok] by simp
  ultimately have rules: "rules (db ?w3) = rules (db demo_world)" by simp
  have r: "?r \<in> set (rules (db ?w3))" "rule_cooldown_minutes ?r = 20" "rule_id ?r = 1"
    unfolding rules by (simp_all add: demo_world_eq)
  have "i \<in> set (incidents (db ?w3))" "j \<in> set (incidents (db ?w3))" using ij(1) by simp_all
  moreover from this have "minutes 20 < \<bar>incident_created_at i - incident_created_at j\<bar>" "incident_state i = ''open''"
    using incidents_spaced [OF slow_env_ok reach(2)] r ij(2-7) by auto
  ultimately show ?thesis using ij(2,3) reach(2) by (intro exI [of _ ?w3] exI [of _ i] exI [of _ j]) simp
qed

section \<open>Exactly one answer per key\<close>

text \<open>What a processing does to the idempotency records.\<close>

lemma process_records:
  assumes "ids_ok E" "alone E" "db w = saved w"
  shows "idems (db (snd (process E p w))) = idems (db w) \<or>
    (\<exists>r. r \<in> set (idems (db w)) \<and> idem_event_id r \<noteq> None \<and>
       snd (process E p w) = snd (replay_idempotent_record E r w)) \<or>
    (\<exists>q. idem_key q \<notin> idem_key ` set (idems (db w)) \<and> idems (db (snd (process E p w))) = idems (db w) @ [q])"
proof (cases "truthy (ec_idempotency_key p)")
  case False
  then have "snd (process E p w) = snd (process_new E p w)"
    by (simp add: process_def split_beta split: sum.split)
  then show ?thesis by simp
next
  case True
  then obtain k where k: "ec_idempotency_key p = Some k" "k \<noteq> []" by (auto simp: truthy_def split: option.splits)
  show ?thesis
  proof (cases "find_idem k w")
    case None
    obtain r w1 where w1: "bare_record k r" "idem_id r = new_id E (map idem_id (idems (db w)))"
        "db w1 = with_record r (db w)"
      and run: "process E p w = finish_key E r (process_new E p w1)"
      by (rule process_unused_key [OF assms(2,3) k None])
    have fresh: "idem_key r \<notin> idem_key ` set (idems (db w))" "idem_id r \<notin> idem_id ` set (idems (db w))"
      using None w1(1,2) ids_okD(1) [OF assms(1), of "map idem_id (idems (db w))"]
      by (simp_all add: find_idem_None_iff bare_record_def)
    have put: "put_row idem_id q (idems (db w) @ [r]) = idems (db w) @ [q]" if "idem_id q = idem_id r" for q
      using put_row_absent [of idem_id q "idems (db w)"] fresh(2) that by (simp add: put_row_def)
    obtain x w2 where new: "process_new E p w1 = (x, w2)" by fastforce
    have rows: "idems (db w2) = idems (db w) @ [r]" using process_new_frame(3) [of E p w1] new w1(3) by simp
    have "\<exists>q. idem_key q = idem_key r \<and> idems (db (snd (process E p w))) = idems (db w) @ [q]"
    proof (cases x)
      case (Inl e)
      then show ?thesis using rows new run by auto
    next
      case (Inr z)
      obtain e i a sk where "z = (e, i, a, sk)" by (cases z)
      then show ?thesis unfolding run new Inr by (auto simp: finish_key_def rows put)
    qed
    with fresh(1) show ?thesis by metis
  next
    case (Some r)
    show ?thesis
    proof (cases "idem_event_id r")
      case None
      then show ?thesis using process_left_key [OF assms(2,3) k Some] by simp
    next
      case event: (Some e)
      then have "process E p w = replay_idempotent_record E r w"
        using process_key [OF k, of E w] process_replays [OF Some] by simp
      then show ?thesis using event find_idemD [OF Some] by auto
    qed
  qed
qed

lemma process_stores:
  assumes "ids_ok E" "alone E" "wf w" "saved w = db w" "result_stored (db w) k eid iid aid sk"
  shows "result_stored (db (snd (process E p w))) k eid iid aid sk"
  using process_records [OF assms(1,2) assms(4) [symmetric], of p]
proof (elim disjE exE conjE)
  fix r assume "r \<in> set (idems (db w))" "snd (process E p w) = snd (replay_idempotent_record E r w)"
  then show ?thesis using replay_stores [OF assms(3) _ assms(5)] by simp
qed (use assms(5) in \<open>auto simp: result_stored_def\<close>)

lemma endpoint_stores:
  assumes "ids_ok E" "alone E" "wf v" "saved v = db v" "result_stored (db v) k eid iid aid sk" "r \<noteq> DeleteAdminReset"
  shows "result_stored (db (snd (endpoint E r v))) k eid iid aid sk"
proof (cases "\<exists>p. r = PostEvents p")
  case True
  then show ?thesis using process_stores [OF assms(1-5)] by (auto simp: endpoint_def snd_ingest_event)
next
  case False
  then have "rules_extended (db v) (db (snd (endpoint E r v)))" using endpoint_extends [OF assms(4)] assms(6) by blast
  with assms(5) show ?thesis by (simp add: rules_extended_def result_stored_def)
qed

lemma reachable_ok:
  assumes "env_ok E" "reachable E w"
  shows "world_ok w" "db w = saved w"
  using reachable_invariant [of E w "\<lambda>_. True", OF assms] by (simp_all add: world_ok_def)

definition serve_all :: "env \<Rightarrow> request list \<Rightarrow> world \<Rightarrow> world" where
  "serve_all E rs w = fold (\<lambda>r v. snd (serve E r v)) rs w"

lemma reachable_serve_all: "reachable E w \<Longrightarrow> reachable E (serve_all E rs w)"
  unfolding serve_all_def by (induction rs arbitrary: w) (simp_all add: reachable.request)

lemma serve_all_stores:
  assumes "env_ok E" "reachable E w" "result_stored (db w) k eid iid aid sk" "DeleteAdminReset \<notin> set rs"
  shows "result_stored (db (serve_all E rs w)) k eid iid aid sk"
  using assms(2-4)
proof (induction rs arbitrary: w)
  case Nil
  then show ?case by (simp add: serve_all_def)
next
  case (Cons r rs)
  note E = env_okD [OF assms(1)] and w = reachable_ok [OF assms(1) Cons.prems(1)]
  have "wf_db (db (snd (endpoint E r v))) \<and> result_stored (db (snd (endpoint E r v))) k eid iid aid sk"
    if v: "wf_db (db v) \<and> result_stored (db v) k eid iid aid sk" "saved v = db v" for v
    using endpoint_stores [OF E(1,4), of v k eid iid aid sk r] world_ok_endpoint [OF E(1,2,5), of v r] v Cons.prems(3)
    by (auto simp: world_ok_def)
  moreover have "wf_db (with_record q d) \<and> result_stored (with_record q d) k eid iid aid sk"
    if "wf_db d \<and> result_stored d k eid iid aid sk" "left_record E p q d" for p q d
    using that wf_with_record [OF E(1)] by (auto simp: result_stored_def)
  ultimately have "result_stored (db (snd (serve E r w))) k eid iid aid sk"
    using serve_invariant [of E "\<lambda>d. wf_db d \<and> result_stored d k eid iid aid sk" w r] E(4) w Cons.prems(2)
    by (auto simp: world_ok_def)
  with Cons.IH [of "snd (serve E r w)"] Cons.prems(1,3) show ?case
    by (simp add: serve_all_def reachable.request)
qed

text \<open>A successful answer of the event endpoint and the processing behind it.\<close>

lemma serve_event:
  assumes "valid_event_create p" "db w = saved w"
  shows "serve E (PostEvents p) w =
    (case process E p w of
       (Inr (e, i, a, sk, rep), v) \<Rightarrow>
         (HTTP_OK (R_processed \<lparr>pr_event = event_read_of e, pr_incident = map_option incident_read_of i,
            pr_action = map_option action_read_of a, pr_skipped_reason = sk,
            pr_idempotency_key = ec_idempotency_key p, pr_idempotent_replay = rep\<rparr>), commit v)
     | (Inl (UnknownAssetError _), v) \<Rightarrow> (HTTP_Error 404, rollback v)
     | (Inl (HTTPException c _), v) \<Rightarrow> (HTTP_Error c, rollback v)
     | (Inl _, v) \<Rightarrow> (HTTP_Error 500, rollback v))"
proof -
  have same: "rollback w = w" using assms(2) by (simp add: rollback_def)
  have clean: "rollback (commit v) = commit v" "rollback (rollback v) = rollback v" for v
    by (simp_all add: rollback_def commit_def)
  show ?thesis
    using assms(1) by (simp add: serve_def valid_request_def get_session_def endpoint_def returning_def
        ingest_event_def open_session_def close_session_def same clean status_of_def split_beta
        split: sum.split exn.split prod.split)
qed

lemma read_ids [simp]:
  "er_id (event_read_of e) = event_id e" "ir_id (incident_read_of i) = incident_id i"
  "tr_id (action_read_of a) = action_id a"
  by (simp_all add: event_read_of_def incident_read_of_def action_read_of_def)

text \<open>
  C1. Exactly once: when an event request with an idempotency key was answered, then after
  any further requests of any kind except a reset, a request with the same key (and any
  body) is answered as a replay with the same event, incident, action and skip reason. It
  changes nothing but the record of the key, which counts one more hit, and adds nothing
  but one audit entry for that hit.
\<close>

theorem exactly_once:
  assumes "env_ok E" "reachable E w" "valid_event_create p" "valid_event_create q"
    and "ec_idempotency_key p = Some k" "ec_idempotency_key q = Some k"
    and "serve E (PostEvents p) w = (HTTP_OK (R_processed x), w1)"
    and "DeleteAdminReset \<notin> set rs" "w2 = serve_all E rs w1"
  shows "\<exists>y w3. serve E (PostEvents q) w2 = (HTTP_OK (R_processed y), w3) \<and> pr_idempotent_replay y \<and>
    er_id (pr_event y) = er_id (pr_event x) \<and>
    map_option ir_id (pr_incident y) = map_option ir_id (pr_incident x) \<and>
    map_option tr_id (pr_action y) = map_option tr_id (pr_action x) \<and>
    pr_skipped_reason y = pr_skipped_reason x \<and>
    only_replayed k (db w2) (db w3)"
proof -
  note E = env_okD [OF assms(1)] and w = reachable_ok [OF assms(1,2)]
  have k: "k \<noteq> []" by (rule valid_key_nonempty [OF assms(3,5)])
  obtain o1 v where run: "process E p w = (o1, v)" by fastforce
  obtain e i a sk rep where o1: "o1 = Inr (e, i, a, sk, rep)"
    using assms(7) run by (cases o1) (auto simp: serve_event [OF assms(3) w(2)] split: exn.splits)
  have x: "x = \<lparr>pr_event = event_read_of e, pr_incident = map_option incident_read_of i,
      pr_action = map_option action_read_of a, pr_skipped_reason = sk,
      pr_idempotency_key = ec_idempotency_key p, pr_idempotent_replay = rep\<rparr>" and w1: "w1 = commit v"
    using assms(7) run o1 by (auto simp: serve_event [OF assms(3) w(2)])
  have "result_stored (db v) k (event_id e) (map_option incident_id i) (map_option action_id a) sk"
    using process_with_idempotency_stores [OF E(1,2,5) w(1)] run o1 process_key [OF assms(5) k] by metis
  then have stored1: "result_stored (db w1) k (event_id e) (map_option incident_id i) (map_option action_id a) sk"
    using w1 by simp
  have r1: "reachable E w1" using reachable.request [OF assms(2), of "PostEvents p"] assms(7) by simp
  then have r2: "reachable E w2" unfolding assms(9) by (rule reachable_serve_all)
  have stored2: "result_stored (db w2) k (event_id e) (map_option incident_id i) (map_option action_id a) sk"
    unfolding assms(9) by (rule serve_all_stores [OF assms(1) r1 stored1 assms(8)])
  note ok2 = reachable_ok [OF assms(1) r2]
  have "wf w2" using ok2(1) by (simp add: world_ok_def)
  from stored_replay [OF this stored2 assms(6) k, of E] obtain e' i' a' v' where
    again: "process E q w2 = (Inr (e', i', a', sk, True), v')" "event_id e' = event_id e"
      "map_option incident_id i' = map_option incident_id i" "map_option action_id a' = map_option action_id a"
      "only_replayed k (db w2) (db v')"
    by blast
  then show ?thesis
    unfolding serve_event [OF assms(4) ok2(2)] x by (simp add: option.map_comp o_def)
qed

lemma reachable_demo: "reachable demo_env demo_world"
proof -
  have "snd (serve demo_env PostDemoSeed \<lparr>db = empty_database, saved = empty_database, reads = 0\<rparr>) = demo_world"
    by (simp add: serve_def valid_request_def get_session_def endpoint_def snd_seed seed_def seed_demo_data_def
        demo_assets_def demo_rules_def add_asset_def add_rule_def sqlite_new_id_def commit_def Let_def
        open_session_def close_session_def rollback_def demo_world_eq empty_database_def returning_def)
  then show ?thesis
    using reachable.request [OF reachable.start [of demo_env 0], of PostDemoSeed] by simp
qed

lemma serve_keyed:
  "\<exists>x w1. serve demo_env (PostEvents keyed_payload) demo_world = (HTTP_OK (R_processed x), w1) \<and> er_id (pr_event x) = 1"
proof -
  obtain e i a w' where "process demo_env keyed_payload demo_world = (Inr (e, Some i, Some a, None, False), w')" "event_id e = 1"
    using keyed_run by blast
  then show ?thesis by (simp add: serve_event)
qed

theorem exactly_once_witness:
  "\<exists>x w1 y w3. serve demo_env (PostEvents keyed_payload) demo_world = (HTTP_OK (R_processed x), w1) \<and>
     serve demo_env (PostEvents reusing_payload)
       (serve_all demo_env [PostProcessActions, PostHealthSweep, PostDemoSeed] w1) = (HTTP_OK (R_processed y), w3) \<and>
     pr_idempotent_replay y \<and> er_id (pr_event y) = 1 \<and> length (events (db w3)) = length
       (events (db (serve_all demo_env [PostProcessActions, PostHealthSweep, PostDemoSeed] w1)))"
proof -
  obtain x w1 where x: "serve demo_env (PostEvents keyed_payload) demo_world = (HTTP_OK (R_processed x), w1)"
    "er_id (pr_event x) = 1"
    using serve_keyed by blast
  from exactly_once [OF demo_env_env_ok reachable_demo valid_demo_payloads(2,3) payload_keys x(1) _ refl,
      of "[PostProcessActions, PostHealthSweep, PostDemoSeed]"] x
  show ?thesis by (auto simp: only_replayed_def)
qed

section \<open>The answers of the event endpoint\<close>

text \<open>The key of an event is in use; and it is in use by a record without a result.\<close>

definition answered :: "event_create \<Rightarrow> database \<Rightarrow> bool" where
  "answered p d \<longleftrightarrow> (\<exists>k. ec_idempotency_key p = Some k \<and> k \<in> idem_key ` set (idems d))"

definition key_left :: "event_create \<Rightarrow> database \<Rightarrow> bool" where
  "key_left p d \<longleftrightarrow> (\<exists>q \<in> set (idems d). ec_idempotency_key p = Some (idem_key q) \<and> idem_event_id q = None)"

lemma key_left_iff:
  assumes "wf w" "find_idem k w = Some r" "ec_idempotency_key p = Some k"
  shows "key_left p (db w) \<longleftrightarrow> idem_event_id r = None"
proof -
  have "distinct (map idem_key (idems (db w)))" using assms(1) by (simp add: wf_db_def idems_ok_def)
  then have same: "q = r" if "q \<in> set (idems (db w))" "idem_key q = k" for q
    using that find_idemD [OF assms(2)] by (auto simp: distinct_map dest: inj_onD)
  show ?thesis
  proof
    assume "key_left p (db w)"
    then obtain q where "q \<in> set (idems (db w))" "idem_key q = k" "idem_event_id q = None"
      using assms(3) by (auto simp: key_left_def)
    with same [of q] show "idem_event_id r = None" by simp
  next
    assume "idem_event_id r = None"
    then show "key_left p (db w)"
      unfolding key_left_def using find_idemD [OF assms(2)] assms(3) by (intro bexI [of _ r]) simp_all
  qed
qed

lemma process_total:
  assumes "alone E" "db w = saved w" "wf w" "valid_event_create p"
  shows "if key_left p (db w)
    then fst (process E p w) = Inl (TimeoutError ''idempotent result was not committed before timeout'')
    else if find_asset (ec_asset_external_id p) w = None \<and> \<not> answered p (db w)
    then fst (process E p w) = Inl (UnknownAssetError (ec_asset_external_id p))
    else \<exists>e i a sk. fst (process E p w) = Inr (e, i, a, sk, answered p (db w))"
proof (cases "ec_idempotency_key p")
  case None
  then have run: "process E p w = (case process_new E p w of (Inl e, w1) \<Rightarrow> (Inl e, w1)
      | (Inr (event, incident, action, skipped), w1) \<Rightarrow> (Inr (event, incident, action, skipped, False), w1))"
    by (simp add: process_def truthy_def)
  have "\<not> answered p (db w)" "\<not> key_left p (db w)" using None by (simp_all add: answered_def key_left_def)
  then show ?thesis
    using process_new_total [of p w E]
    by (cases "fst (process_new E p w)")
      (auto simp: run process_new_unknown split_beta dest: process_new_InlD split: sum.split prod.split)
next
  case (Some k)
  have k: "k \<noteq> []" by (rule valid_key_nonempty [OF assms(4) Some])
  show ?thesis
  proof (cases "find_idem k w")
    case found: (Some r)
    have r: "r \<in> set (idems (db w))" "idem_key r = k" using find_idemD [OF found] by auto
    then have used: "answered p (db w)" using Some by (auto simp: answered_def)
    show ?thesis
    proof (cases "idem_event_id r")
      case None
      then have "key_left p (db w)" using key_left_iff [OF assms(3) found Some] by simp
      then show ?thesis using process_left_key(1) [OF assms(1,2) Some k found None] by simp
    next
      case eid: (Some eid)
      then have "\<not> key_left p (db w)" using key_left_iff [OF assms(3) found Some] by simp
      moreover have "process E p w = replay_idempotent_record E r w"
        using process_key [OF Some k, of E w] process_replays [OF found] eid by simp
      ultimately show ?thesis using replay_result [OF assms(3) r(1) eid, of E] used by auto
    qed
  next
    case None
    then have unused: "\<not> answered p (db w)" "\<not> key_left p (db w)"
      using Some by (auto simp: answered_def key_left_def find_idem_None_iff)
    obtain r w1 where w1: "db w1 = with_record r (db w)"
      and run: "process E p w = finish_key E r (process_new E p w1)"
      by (rule process_unused_key [OF assms(1,2) Some k None])
    have asset: "find_asset ext w1 = find_asset ext w" for ext using w1 by (simp add: find_asset_def)
    show ?thesis
    proof (cases "find_asset (ec_asset_external_id p) w")
      case None
      then show ?thesis using unused asset by (simp add: run process_new_unknown)
    next
      case (Some a)
      then obtain x where "fst (process_new E p w1) = Inr x" using process_new_total [of p w1 E] asset by auto
      moreover obtain e i act sk where "x = (e, i, act, sk)" by (cases x)
      ultimately have "process_new E p w1 = (Inr (e, i, act, sk), snd (process_new E p w1))" by (simp add: prod_eq_iff)
      then have "fst (process E p w) = Inr (e, i, act, sk, False)" unfolding run by (metis finish_key_simps(2))
      then show ?thesis using unused Some by auto
    qed
  qed
qed

text \<open>
  C4. The answers of the event endpoint: in every reachable world a valid request is answered
  with 500 exactly when its key was left behind by an event that failed, with 404 exactly
  when its asset is not registered and its key (if any) has not been used, and with a
  result otherwise, as a replay exactly when its key was used.
\<close>

theorem event_endpoint_answers:
  assumes "env_ok E" "reachable E w" "valid_event_create p" "serve E (PostEvents p) w = (resp, w')"
  shows "if key_left p (db w) then resp = HTTP_Error 500
    else if ec_asset_external_id p \<notin> asset_external_id ` set (assets (db w)) \<and> \<not> answered p (db w)
    then resp = HTTP_Error 404
    else \<exists>x. resp = HTTP_OK (R_processed x) \<and> pr_idempotent_replay x = answered p (db w)"
proof -
  note w = reachable_ok [OF assms(1,2)]
  have "wf w" using w(1) by (simp add: world_ok_def)
  note total = process_total [OF env_okD(4) [OF assms(1)] w(2) this assms(3)]
  obtain o1 v where run: "process E p w = (o1, v)" by fastforce
  note answer = assms(4) [unfolded serve_event [OF assms(3) w(2)] run prod.case]
  let ?unknown = "ec_asset_external_id p \<notin> asset_external_id ` set (assets (db w)) \<and> \<not> answered p (db w)"
  show ?thesis
  proof (cases "key_left p (db w)")
    case True
    with total run have "o1 = Inl (TimeoutError ''idempotent result was not committed before timeout'')" by simp
    with True answer show ?thesis by simp
  next
    case kept: False
    show ?thesis
    proof (cases ?unknown)
      case True
      with kept total run have "o1 = Inl (UnknownAssetError (ec_asset_external_id p))" by (simp add: find_asset_None_iff)
      with kept True answer show ?thesis by simp
    next
      case False
      with kept total run obtain e i a sk where "o1 = Inr (e, i, a, sk, answered p (db w))"
        by (auto simp: find_asset_None_iff)
      with kept False answer show ?thesis by auto
    qed
  qed
qed

theorem event_endpoint_answers_witness:
  "(\<exists>x w'. serve demo_env (PostEvents keyed_payload) demo_world = (HTTP_OK (R_processed x), w') \<and>
     \<not> pr_idempotent_replay x) \<and>
   (\<exists>w'. serve demo_env (PostEvents unknown_payload) demo_world = (HTTP_Error 404, w'))"
proof -
  obtain r1 w1 r2 w2 where
    known: "serve demo_env (PostEvents keyed_payload) demo_world = (r1, w1)" and
    unknown: "serve demo_env (PostEvents unknown_payload) demo_world = (r2, w2)"
    by fastforce
  have fresh: "\<not> key_left p (db demo_world)" "\<not> answered p (db demo_world)" for p
    by (simp_all add: key_left_def answered_def)
  from event_endpoint_answers [OF demo_env_env_ok reachable_demo valid_demo_payloads(2) known] fresh
  have "\<exists>x. r1 = HTTP_OK (R_processed x) \<and> \<not> pr_idempotent_replay x"
    by (simp add: demo_world_eq keyed_payload_def demo_payload_def)
  moreover from event_endpoint_answers [OF demo_env_env_ok reachable_demo valid_demo_payloads(4) unknown] fresh
  have "r2 = HTTP_Error 404" by (simp add: demo_world_eq)
  ultimately show ?thesis using known unknown by blast
qed

section \<open>A key that was left behind\<close>

lemma process_keeps_left:
  assumes "ids_ok E" "alone E" "wf w" "db w = saved w" "q \<in> set (idems (db w))" "idem_event_id q = None"
  shows "q \<in> set (idems (db (snd (process E p w))))"
  using process_records [OF assms(1,2,4), of p]
proof (elim disjE exE conjE)
  fix r assume r: "r \<in> set (idems (db w))" "idem_event_id r \<noteq> None"
    "snd (process E p w) = snd (replay_idempotent_record E r w)"
  have "distinct (map idem_id (idems (db w)))" using assms(3) by (simp add: wf_db_def idems_ok_def)
  moreover have "q \<noteq> r" using r(2) assms(6) by auto
  ultimately have "idem_id q \<noteq> idem_id r" using r(1) assms(5) by (auto simp: distinct_map dest: inj_onD)
  then show ?thesis using assms(5) unfolding r(3) replay_idems put_row_def by (auto simp: image_iff)
qed (use assms(5) in auto)

definition lost :: "string \<Rightarrow> database \<Rightarrow> bool" where
  "lost k d \<longleftrightarrow> (\<exists>q \<in> set (idems d). idem_key q = k \<and> idem_event_id q = None)"

lemma lost_key_left: "ec_idempotency_key p = Some k \<Longrightarrow> key_left p d = lost k d"
  by (auto simp: key_left_def lost_def)

lemma endpoint_keeps_lost:
  assumes "ids_ok E" "alone E" "wf v" "saved v = db v" "lost k (db v)" "r \<noteq> DeleteAdminReset"
  shows "lost k (db (snd (endpoint E r v)))"
proof (cases "\<exists>p. r = PostEvents p")
  case True
  then show ?thesis
    using process_keeps_left [OF assms(1-3) assms(4) [symmetric]] assms(5)
    unfolding lost_def by (fastforce simp: endpoint_def snd_ingest_event)
next
  case False
  then have "rules_extended (db v) (db (snd (endpoint E r v)))" using endpoint_extends [OF assms(4)] assms(6) by blast
  with assms(5) show ?thesis by (simp add: rules_extended_def lost_def)
qed

lemma serve_all_lost:
  assumes "env_ok E" "reachable E w" "lost k (db w)" "DeleteAdminReset \<notin> set rs"
  shows "lost k (db (serve_all E rs w))"
  using assms(2-4)
proof (induction rs arbitrary: w)
  case Nil
  then show ?case by (simp add: serve_all_def)
next
  case (Cons r rs)
  note E = env_okD [OF assms(1)] and w = reachable_ok [OF assms(1) Cons.prems(1)]
  have "wf_db (db (snd (endpoint E r v))) \<and> lost k (db (snd (endpoint E r v)))"
    if v: "wf_db (db v) \<and> lost k (db v)" "saved v = db v" for v
    using endpoint_keeps_lost [OF E(1,4), of v k r] world_ok_endpoint [OF E(1,2,5), of v r] v Cons.prems(3)
    by (auto simp: world_ok_def)
  moreover have "wf_db (with_record q d) \<and> lost k (with_record q d)"
    if "wf_db d \<and> lost k d" "left_record E p q d" for p q d
    using that wf_with_record [OF E(1)] by (auto simp: lost_def)
  ultimately have "lost k (db (snd (serve E r w)))"
    using serve_invariant [of E "\<lambda>d. wf_db d \<and> lost k d" w r] E(4) w Cons.prems(2)
    by (auto simp: world_ok_def)
  with Cons.IH [of "snd (serve E r w)"] Cons.prems(1,3) show ?case
    by (simp add: serve_all_def reachable.request)
qed

text \<open>
  C5. A key is lost with the first event that fails: when an event request with an
  idempotency key was answered 404, every later request with that key is answered 500,
  whatever its body and whatever other requests except a reset lie in between, even when
  the asset has been registered by then; and it changes nothing.
\<close>

theorem failed_key_is_lost:
  assumes "env_ok E" "reachable E w" "valid_event_create p" "valid_event_create q"
    and "ec_idempotency_key p = Some k" "ec_idempotency_key q = Some k"
    and "serve E (PostEvents p) w = (HTTP_Error 404, w1)"
    and "DeleteAdminReset \<notin> set rs" "w2 = serve_all E rs w1"
  shows "\<exists>w3. serve E (PostEvents q) w2 = (HTTP_Error 500, w3) \<and> db w3 = db w2 \<and> saved w3 = db w2"
proof -
  note E = env_okD [OF assms(1)] and w = reachable_ok [OF assms(1,2)]
  have "\<not> key_left p (db w) \<and> ec_asset_external_id p \<notin> asset_external_id ` set (assets (db w)) \<and> \<not> answered p (db w)"
  proof -
    have "wf w" using w(1) by (simp add: world_ok_def)
    from process_total [OF E(4) w(2) this assms(3)] show ?thesis
      using assms(7) by (cases "process E p w") (auto simp: serve_event [OF assms(3) w(2)] find_asset_None_iff split: if_splits)
  qed
  then have leaves: "leaves_key (PostEvents p) (db w)" using assms(3,5) by (auto simp: leaves_key_def answered_def)
  obtain o1 v where run: "process E p w = (o1, v)" by fastforce
  obtain e where o1: "o1 = Inl e"
    using assms(7) run by (cases o1) (auto simp: serve_event [OF assms(3) w(2)])
  then have "fst (process E p w) = Inl e" using run by simp
  from process_fails [OF E(4) w(2) assms(3) this] leaves run
  obtain q1 where q1: "left_record E p q1 (db w)" "saved v = with_record q1 (db w)" by auto
  have "db w1 = saved v"
    using assms(7) run o1 by (auto simp: serve_event [OF assms(3) w(2)] split: exn.splits)
  then have lost1: "lost k (db w1)" using q1 assms(5) by (auto simp: lost_def left_record_def bare_record_def)
  have r1: "reachable E w1" using reachable.request [OF assms(2), of "PostEvents p"] assms(7) by simp
  then have r2: "reachable E w2" unfolding assms(9) by (rule reachable_serve_all)
  have lost2: "lost k (db w2)" unfolding assms(9) by (rule serve_all_lost [OF assms(1) r1 lost1 assms(8)])
  note ok2 = reachable_ok [OF assms(1) r2]
  have wf2: "wf w2" using ok2(1) by (simp add: world_ok_def)
  have k: "k \<noteq> []" by (rule valid_key_nonempty [OF assms(4,6)])
  obtain r where "find_idem k w2 = Some r" using lost2 find_idem_None_iff [of k w2] by (fastforce simp: lost_def)
  moreover from this have "idem_event_id r = None"
    using key_left_iff [OF wf2 _ assms(6)] lost2 lost_key_left [OF assms(6)] by simp
  ultimately have again: "fst (process E q w2) = Inl (TimeoutError ''idempotent result was not committed before timeout'')"
    "saved (snd (process E q w2)) = saved w2"
    using process_left_key [OF E(4) ok2(2) assms(6) k] by blast+
  then show ?thesis
    using ok2(2) by (cases "process E q w2") (simp add: serve_event [OF assms(4) ok2(2)])
qed

text \<open>The asset of the refused event is registered, and the event sent again.\<close>

definition late_asset :: asset_create where
  "late_asset = \<lparr>ac_external_id = ''PUMP-999'', ac_name = ''Late pump'', ac_group = ''water-treatment''\<rparr>"

theorem failed_key_is_lost_witness:
  "\<exists>w1 w3. serve demo_env (PostEvents unknown_payload) demo_world = (HTTP_Error 404, w1) \<and>
     serve demo_env (PostEvents unknown_payload) (serve_all demo_env [PostAssets late_asset] w1) = (HTTP_Error 500, w3)"
proof -
  obtain w1 where w1: "serve demo_env (PostEvents unknown_payload) demo_world = (HTTP_Error 404, w1)"
    using serve_unknown by blast
  from failed_key_is_lost [OF demo_env_env_ok reachable_demo valid_demo_payloads(4,4) unknown_fields(1) unknown_fields(1)
      w1 _ refl, of "[PostAssets late_asset]"] w1
  show ?thesis by auto
qed

section \<open>Integrity\<close>

lemma reachable_wf: "env_ok E \<Longrightarrow> reachable E w \<Longrightarrow> wf w"
  using reachable_ok(1) by (simp add: world_ok_def)

text \<open>
  C8. Every action is justified: in every reachable database each action belongs to a stored
  incident, that incident was opened by a stored, enabled rule for a stored event of the
  rule's category whose severity reaches the rule's threshold, and the event is about the
  incident's asset, which is registered.
\<close>

theorem every_action_justified:
  assumes "env_ok E" "reachable E w" "a \<in> set (actions (db w))"
  shows "\<exists>i \<in> set (incidents (db w)). \<exists>r \<in> set (rules (db w)). \<exists>e \<in> set (events (db w)). \<exists>x \<in> set (assets (db w)).
    action_incident_id a = incident_id i \<and> incident_rule_id i = rule_id r \<and> incident_event_id i = event_id e \<and>
    incident_asset_id i = asset_id x \<and> event_asset_id e = asset_id x \<and>
    rule_enabled r \<and> rule_category r = event_category e \<and> rule_minimum_severity r \<le> event_severity e"
proof -
  have ok: "actions_ok (incidents (db w)) (actions (db w))" "incidents_ok (rules (db w)) (events (db w)) (incidents (db w))"
    "events_ok (assets (db w)) (events (db w))"
    using reachable_wf [OF assms(1,2)] by (simp_all add: wf_db_def)
  obtain i where i: "i \<in> set (incidents (db w))" "action_incident_id a = incident_id i"
    using ok(1) assms(3) by (auto simp: actions_ok_def)
  then obtain r e where re: "r \<in> set (rules (db w))" "e \<in> set (events (db w))" "rule_id r = incident_rule_id i"
    "event_id e = incident_event_id i" "event_asset_id e = incident_asset_id i" "rule_justifies r e"
    using ok(2) by (auto simp: incidents_ok_def incident_justified_def)
  then obtain x where "x \<in> set (assets (db w))" "event_asset_id e = asset_id x" using ok(3) by (auto simp: events_ok_def)
  with i re show ?thesis
    by (intro bexI [of _ i] bexI [of _ r] bexI [of _ e] bexI [of _ x]) (simp_all add: rule_justifies_def)
qed

theorem every_action_justified_witness:
  "\<exists>w a. reachable demo_env w \<and> actions (db w) = [a] \<and>
     (\<exists>r \<in> set (rules (db w)). \<exists>e \<in> set (events (db w)). rule_category r = event_category e)"
proof -
  obtain e i a v where "process demo_env keyed_payload demo_world = (Inr (e, Some i, Some a, None, False), v)"
    "length (actions (db v)) = 1"
    using keyed_run by blast
  then have one: "length (actions (db (snd (serve demo_env (PostEvents keyed_payload) demo_world)))) = 1"
    by (simp add: serve_event)
  then obtain b where b: "actions (db (snd (serve demo_env (PostEvents keyed_payload) demo_world))) = [b]"
    by (auto simp: length_Suc_conv)
  have reach: "reachable demo_env (snd (serve demo_env (PostEvents keyed_payload) demo_world))"
    by (rule reachable.request [OF reachable_demo])
  from every_action_justified [OF demo_env_env_ok reach, of b] b reach show ?thesis by fastforce
qed

end
