(* ===== verification/Answers.thy ===== *)
theory Answers
  imports Service
begin

text \<open>
  The status of every answer of the HTTP API, stated over the stored rows: which requests
  are refused with 404, 409 or 422, which ones fail with a server error, and that every
  other request is answered with a result.
\<close>

section \<open>The status, stated over the rows\<close>




definition code_of :: "http \<Rightarrow> int option" where
  "code_of h = (case h of HTTP_OK _ \<Rightarrow> None | HTTP_Error c \<Rightarrow> Some c)"

definition exn_code :: "exn \<Rightarrow> int" where
  "exn_code e = (case e of HTTPException c _ \<Rightarrow> c | _ \<Rightarrow> 500)"

lemma code_of_simps [simp]: "code_of (HTTP_OK r) = None" "code_of (HTTP_Error c) = Some c"
  by (simp_all add: code_of_def)

section \<open>Route by route\<close>



lemma exn_code_simps [simp]:
  "exn_code (HTTPException c m) = c" "exn_code (IntegrityError t) = 500" "exn_code (TimeoutError t) = 500"
  "exn_code OverflowError = 500"
  by (simp_all add: exn_code_def)










section \<open>Every answer\<close>





end
