(* ===== verification/Responses.thy ===== *)
theory Responses
  imports Service
begin

text \<open>
  The response models: \<open>AssetRead\<close> and \<open>RuleRead\<close> inherit the constraints of the request
  bodies, and FastAPI validates what a handler returns against them. Every asset and rule
  of a reachable database satisfies them, so that this validation never fails.
\<close>

section \<open>The constraints of the response models\<close>

definition valid_asset_read :: "asset_read \<Rightarrow> bool" where
  "valid_asset_read a \<longleftrightarrow> valid_asset_create (asset_create.truncate a)"

definition valid_rule_read :: "rule_read \<Rightarrow> bool" where
  "valid_rule_read r \<longleftrightarrow> valid_rule_create (rule_create.truncate r)"

text \<open>The other response models have no constraints beyond the types of their fields.\<close>

definition valid_response :: "response \<Rightarrow> bool" where
  "valid_response x =
     (case x of
        R_asset a \<Rightarrow> valid_asset_read a
      | R_assets as \<Rightarrow> list_all valid_asset_read as
      | R_rule r \<Rightarrow> valid_rule_read r
      | R_rules rs \<Rightarrow> list_all valid_rule_read rs
      | _ \<Rightarrow> True)"

section \<open>The stored assets and rules\<close>

definition masters_ok :: "database \<Rightarrow> bool" where
  "masters_ok d \<longleftrightarrow>
     (\<forall>a \<in> set (assets d). valid_asset_read (asset_read_of a)) \<and>
     (\<forall>r \<in> set (rules d). valid_rule_read (rule_read_of r))"

lemma asset_read_valid [simp]:
  "valid_asset_read (asset_read_of a) \<longleftrightarrow>
     len_between 3 80 (asset_external_id a) \<and> len_between 3 120 (asset_name a) \<and> len_between 2 80 (asset_group a)"
  by (simp add: valid_asset_read_def asset_read_of_def asset_create.truncate_def valid_asset_create_def)

lemma rule_read_valid [simp]:
  "valid_rule_read (rule_read_of r) \<longleftrightarrow>
     len_between 3 120 (rule_name r) \<and> len_between 2 80 (rule_category r) \<and>
     1 \<le> rule_minimum_severity r \<and> rule_minimum_severity r \<le> 100 \<and>
     0 \<le> rule_cooldown_minutes r \<and> rule_cooldown_minutes r \<le> 1440 \<and> len_between 3 80 (rule_action_type r)"
  by (simp add: valid_rule_read_def rule_read_of_def rule_create.truncate_def valid_rule_create_def)

lemma masters_rows:
  assumes "masters_ok d"
  shows "a \<in> set (assets d) \<Longrightarrow> valid_asset_read (asset_read_of a)"
    "r \<in> set (rules d) \<Longrightarrow> valid_rule_read (rule_read_of r)"
  using assms by (simp_all add: masters_ok_def del: asset_read_valid rule_read_valid)

lemma masters_frame:
  "masters_ok d \<Longrightarrow> assets d' = assets d \<Longrightarrow> rules d' = rules d \<Longrightarrow> masters_ok d'"
  by (simp add: masters_ok_def)

lemma masters_add_asset:
  assumes "masters_ok (db w)" "len_between 3 80 ext" "len_between 3 120 name" "len_between 2 80 grp"
  shows "masters_ok (db (snd (add_asset E ext name grp st w)))"
    "fst (add_asset E ext name grp st w) = Inr a \<Longrightarrow> valid_asset_read (asset_read_of a)"
  using assms by (auto simp: masters_ok_def add_asset_def Let_def split: if_splits)

lemma masters_add_rule:
  assumes "masters_ok (db w)" "len_between 3 120 name" "len_between 2 80 cat" "1 \<le> sev" "sev \<le> 100"
    "0 \<le> cool" "cool \<le> 1440" "len_between 3 80 ty"
  shows "masters_ok (db (snd (add_rule E name cat sev cool ty en w)))"
    "fst (add_rule E name cat sev cool ty en w) = Inr r \<Longrightarrow> valid_rule_read (rule_read_of r)"
  using assms by (auto simp: masters_ok_def add_rule_def Let_def split: if_splits)

section \<open>Events\<close>

lemma masters_record:
  assumes "masters_ok (db w)" "a \<in> set (assets (db w))"
  shows "masters_ok (db (snd (record_event E p a w)))"
  using assms by (auto simp: masters_ok_def dest!: in_put_rowD)

lemma masters_process_new:
  assumes "masters_ok (db w)"
  shows "masters_ok (db (snd (process_new E p w)))"
proof (cases "find_asset (ec_asset_external_id p) w")
  case None
  then show ?thesis using assms by (simp add: process_new_unknown)
next
  case (Some a)
  then have "a \<in> set (assets (db w))" by (auto simp: find_asset_def dest: find_row_SomeD)
  from masters_record [OF assms this] have "masters_ok (db (snd (record_event E p a w)))" .
  moreover have "assets (db (snd (process_new E p w))) = assets (db (snd (record_event E p a w)))"
    using Some by (simp add: process_new_def Let_def split_beta split: option.split)
  ultimately show ?thesis by (rule masters_frame) simp
qed

lemma masters_wait:
  assumes "alone E" "masters_ok (db w)"
  shows "masters_ok (db (snd (wait_for_idempotent_result E k n w)))"
  using assms(2)
proof (induction n arbitrary: w)
  case 0
  then show ?case by simp
next
  case (Suc n)
  have "masters_ok (db (snd (replay_idempotent_record E r w)))" for r
    by (rule masters_frame [OF Suc.prems]) simp_all
  then show ?case
    using Suc.IH [of "peer_commit E w"] Suc.prems assms(1)
    by (simp del: wait_for_idempotent_result.simps(2) add: wait_step)
qed

lemma masters_process:
  assumes "alone E" "masters_ok (db w)" "masters_ok (saved w)"
  shows "masters_ok (db (snd (process E p w)))"
proof (cases "truthy (ec_idempotency_key p)")
  case False
  then show ?thesis
    using masters_process_new [OF assms(2), of E p] by (simp add: process_def split_beta split: sum.split)
next
  case True
  then obtain k where k: "ec_idempotency_key p = Some k" "k \<noteq> []" by (auto simp: truthy_def split: option.splits)
  note key = process_key [OF k, of E w]
  obtain x w1 where ins: "add_idem E k (peer_commit E w) = (x, w1)" by fastforce
  have w1: "assets (db w1) = assets (db w)" "rules (db w1) = rules (db w)" "saved w1 = saved w"
    using add_idem_frame [of E k "peer_commit E w"] ins assms(1) by simp_all
  let ?v = "release_savepoint (peer_commit E w) w1"
  have new: "masters_ok (db (snd (process_new E p ?v)))"
    by (rule masters_process_new, rule masters_frame [OF assms(2)]) (simp_all add: w1)
  have wait: "masters_ok (db (snd (wait_for_idempotent_result E k 100 (rollback w1))))"
    by (rule masters_wait [OF assms(1)]) (use assms(3) w1(3) in simp)
  have replay: "masters_ok (db (snd (replay_idempotent_record E r w)))" for r
    by (rule masters_frame [OF assms(2)]) simp_all
  have stored: "masters_ok (db (put_idem r (snd (now_utc E (snd (process_new E p ?v))))))" for r
    by (rule masters_frame [OF new]) simp_all
  show ?thesis
    unfolding key process_with_idempotency_def
    using ins new wait replay stored by (auto simp: split_beta Let_def split: sum.split prod.split)
qed

section \<open>Requests\<close>

lemma masters_seed:
  assumes "masters_ok (db w)" "masters_ok (saved w)"
  shows "masters_ok (db (snd (seed_demo_data E w)))"
proof -
  let ?fa = "\<lambda>(ext, name, grp). add_asset E ext name grp ''unknown''"
    and ?fr = "\<lambda>(name, cat, minsev, cooldown, ty). add_rule E name cat minsev cooldown ty True"
  have rows: "len_between 3 80 ext \<and> len_between 3 120 name \<and> len_between 2 80 grp"
    if "(ext, name, grp) \<in> set demo_assets" for ext name grp
    using that by (auto simp: demo_assets_def len_between_def)
  have rules: "len_between 3 120 name \<and> len_between 2 80 cat \<and> 1 \<le> m \<and> m \<le> 100 \<and> 0 \<le> c \<and> c \<le> 1440 \<and> len_between 3 80 ty"
    if "(name, cat, m, c, ty) \<in> set demo_rules" for name cat m c ty
    using that by (auto simp: demo_rules_def len_between_def)
  have l1: "masters_ok (db (snd (for_each ?fa demo_assets w)))"
    using assms(1) by (auto intro!: for_each_invariant [where P = "\<lambda>v. masters_ok (db v)"] masters_add_asset(1) dest: rows)
  have l2: "masters_ok (db (snd (for_each ?fr demo_rules v)))" if "masters_ok (db v)" for v
    using that by (auto intro!: for_each_invariant [where P = "\<lambda>v. masters_ok (db v)"] masters_add_rule(1) dest: rules)
  have s: "saved (snd (for_each ?fa demo_assets w)) = saved w" "saved (snd (for_each ?fr demo_rules v)) = saved v" for v
    by (rule saved_for_each_seed)+
  show ?thesis
    using assms l2 [OF l1] s by (auto simp: seed_demo_data_def split_beta split: sum.split)
qed

lemma expire_masters [simp]:
  "assets (db (snd (expire_waiting_checks E now w))) = assets (db w)"
  "rules (db (snd (expire_waiting_checks E now w))) = rules (db w)"
  by (simp_all add: expire_waiting_checks_def split_beta Let_def split: sum.split) (rule for_each_invariant; simp)+

lemma sweep_masters [simp]:
  "assets (db (snd (run_health_sweep E m w))) = assets (db w)"
  "rules (db (snd (run_health_sweep E m w))) = rules (db w)"
  by (simp_all add: run_health_sweep_def Let_def split_beta)

lemma process_due_masters:
  "assets (db (snd (process_due_actions E limit m ts d ls T now w))) = assets (db w)"
  "rules (db (snd (process_due_actions E limit m ts d ls T now w))) = rules (db w)"
  by (simp_all add: process_due_actions_def split_beta Let_def uuid4_hex_def split: sum.split)

lemma create_check_masters [simp]:
  "assets (db (snd (create_check E name ext d now w))) = assets (db w)"
  "rules (db (snd (create_check E name ext d now w))) = rules (db w)"
  by (simp_all add: create_check_def Let_def split_beta)

lemma masters_endpoint:
  assumes "alone E" "valid_request r" "masters_ok (db v)" "saved v = db v"
  shows "masters_ok (db (snd (endpoint E r v)))"
proof (cases r)
  case (PostAssets p)
  then show ?thesis
    using assms(2,3) masters_add_asset(1) [of v]
    by (simp add: endpoint_def snd_create_asset valid_request_def valid_asset_create_def)
next
  case (PostRules p)
  then show ?thesis
    using assms(2,3) masters_add_rule(1) [of v]
    by (simp add: endpoint_def snd_create_rule valid_request_def valid_rule_create_def)
next
  case (PostEvents p)
  then show ?thesis
    using masters_process [OF assms(1,3)] assms(3,4) by (simp add: endpoint_def snd_ingest_event)
next
  case PostDemoSeed
  then show ?thesis using masters_seed [OF assms(3)] assms(3,4) by (simp add: endpoint_def snd_seed)
next
  case PostProcessActions
  show ?thesis
    by (rule masters_frame [OF assms(3)]) (simp_all add: PostProcessActions endpoint_def process_actions_def process_due_masters)
next
  case (PostCheckTransition k p)
  show ?thesis
    by (rule masters_frame [OF assms(3)])
      (simp_all add: PostCheckTransition endpoint_def snd_transition_check_run split: option.split)
qed ((rule masters_frame [OF assms(3)]; simp add: endpoint_def snd_create_check_run expire_check_timeouts_def
    health_sweep_def reset_workload_def split_beta Let_def)+)

lemma reachable_masters:
  assumes "env_ok E" "reachable E w"
  shows "masters_ok (saved w) \<and> db w = saved w"
proof -
  have "wf_db (saved w) \<and> masters_ok (saved w) \<and> db w = saved w"
  proof (rule reachable_invariant [OF assms])
    show "masters_ok empty_database" by (simp add: masters_ok_def)
    show "masters_ok (db (snd (endpoint E r v)))"
      if "valid_request r" "masters_ok (db v)" "saved v = db v" for r v
      using masters_endpoint [OF env_okD(4) [OF assms(1)] that] .
    show "masters_ok (db (snd (process_due_actions E limit m ts d ls default_transport now v)))"
      if "masters_ok (db v)" for limit m ts d ls now v
      by (rule masters_frame [OF that process_due_masters])
    show "masters_ok (with_record q d)" if "masters_ok d" for q d
      by (rule masters_frame [OF that]) simp_all
  qed
  then show ?thesis by simp
qed

section \<open>Every answer fits its response model\<close>

lemma valid_response_simps [simp]:
  "valid_response (R_asset a) = valid_asset_read a" "valid_response (R_assets as) = list_all valid_asset_read as"
  "valid_response (R_rule r) = valid_rule_read r" "valid_response (R_rules rs) = list_all valid_rule_read rs"
  "valid_response (R_status s)" "valid_response (R_ready q)" "valid_response (R_processed u)"
  "valid_response (R_incidents is)" "valid_response (R_actions cs)" "valid_response (R_metrics m)"
  "valid_response (R_action_stats st)" "valid_response (R_check c)" "valid_response (R_expired n)"
  "valid_response (R_audit ls)" "valid_response (R_job j)"
  by (simp_all add: valid_response_def)

lemma returning_Inr:
  "fst (returning f o1) = Inr x \<longleftrightarrow> (\<exists>y. fst o1 = Inr y \<and> x = f y)"
  by (cases o1) (auto simp: returning_def split: sum.split)

lemma endpoint_valid:
  assumes "scans_ok E" "valid_request r" "masters_ok (db v)" "fst (endpoint E r v) = Inr x"
  shows "valid_response x"
proof (cases r)
  case (PostAssets p)
  then obtain a where "fst (create_asset E p v) = Inr a" "x = R_asset a"
    using assms(4) by (auto simp: endpoint_def returning_Inr)
  moreover from this(1) obtain b where
    "fst (add_asset E (ac_external_id p) (ac_name p) (ac_group p) ''registered'' v) = Inr b" "a = asset_read_of b"
    by (auto simp: create_asset_def split_beta split: if_splits sum.splits)
  moreover from this(1) have "valid_asset_read (asset_read_of b)"
    using assms(2) PostAssets
    by (intro masters_add_asset(2) [OF assms(3)]) (simp_all add: valid_request_def valid_asset_create_def)
  ultimately show ?thesis by (simp del: asset_read_valid)
next
  case (PostRules p)
  then obtain a where "fst (create_rule E p v) = Inr a" "x = R_rule a"
    using assms(4) by (auto simp: endpoint_def returning_Inr)
  moreover from this(1) obtain b where
    "fst (add_rule E (rc_name p) (rc_category p) (rc_minimum_severity p) (rc_cooldown_minutes p)
       (rc_action_type p) (rc_enabled p) v) = Inr b" "a = rule_read_of b"
    by (auto simp: create_rule_def split_beta split: sum.splits)
  moreover from this(1) have "valid_rule_read (rule_read_of b)"
    using assms(2) PostRules
    by (intro masters_add_rule(2) [OF assms(3)]) (simp_all add: valid_request_def valid_rule_create_def)
  ultimately show ?thesis by (simp del: rule_read_valid)
next
  case GetAssets
  then show ?thesis
    using assms(4) masters_rows(1) [OF assms(3)] by (auto simp: endpoint_def list_assets_def list_all_iff)
next
  case GetRules
  then show ?thesis
    using assms(4) masters_rows(2) [OF assms(3)] scan_sets [OF assms(1)]
    by (auto simp: endpoint_def list_rules_def list_all_iff)
qed (use assms(4) in \<open>auto simp: endpoint_def returning_Inr split_beta Let_def\<close>)

text \<open>
  C7. Every successful answer satisfies its response model. In every reachable world,
  whatever asset and rule an answer shows, created or listed, keeps the length and range
  constraints of \<open>AssetRead\<close> and \<open>RuleRead\<close>, so that FastAPI's validation of the response
  cannot turn it into a server error.
\<close>

theorem answers_fit_response_models:
  assumes "env_ok E" "reachable E w" "serve E r w = (HTTP_OK x, w')"
  shows "valid_response x"
proof -
  have r: "valid_request r" using assms(3) by (simp add: serve_def split: if_splits)
  have "status_of (fst (get_session (endpoint E r) w)) = HTTP_OK x"
    using assms(3) r by (simp add: serve_def split_beta)
  then have "fst (get_session (endpoint E r) w) = Inr x"
    by (simp add: status_of_def split: sum.splits exn.splits)
  then have "fst (endpoint E r (rollback w)) = Inr x" by (simp add: request_scope.run_result)
  moreover have "masters_ok (db (rollback w))" using reachable_masters [OF assms(1,2)] by simp
  ultimately show ?thesis using endpoint_valid [OF env_okD(2) [OF assms(1)] r] by blast
qed

theorem answers_fit_response_models_witness:
  "\<exists>w'. serve demo_env GetAssets demo_world = (HTTP_OK (R_assets (list_assets demo_world)), w') \<and>
     length (list_assets demo_world) = 3 \<and> valid_response (R_assets (list_assets demo_world))"
proof -
  have "list_assets (rollback demo_world) = list_assets demo_world" by (simp add: list_assets_def demo_world_eq)
  then obtain w' where ok: "serve demo_env GetAssets demo_world = (HTTP_OK (R_assets (list_assets demo_world)), w')"
    by (simp add: serve_def valid_request_def endpoint_def get_session_def open_session_def status_of_def)
  have "length (list_assets demo_world) = 3" by (simp add: list_assets_def demo_world_eq)
  with answers_fit_response_models [OF demo_env_env_ok reachable_demo ok] ok show ?thesis by simp
qed

end
