(* ===== verification/Metrics.thy ===== *)
theory Metrics
  imports Service
begin

text \<open>
  The metrics endpoint of \<open>api/app.py\<close>: in a reachable world the counters it reports add up,
  since no operation ever stores an action as skipped.
\<close>

section \<open>Metrics\<close>

definition no_skipped :: "database \<Rightarrow> bool" where
  "no_skipped d \<longleftrightarrow> (\<forall>a \<in> set (actions d). action_state a \<noteq> action_state_value ActionState_SKIPPED)"

lemma no_skipped_audit: "no_skipped (db (add_audit E ty en ei msg w)) = no_skipped (db w)"
  by (simp add: no_skipped_def)

lemma no_skipped_now: "no_skipped (db (put_action b (snd (now_or E now w)))) = no_skipped (db (put_action b w))"
  by (simp add: no_skipped_def)

lemma no_skipped_once:
  assumes "no_skipped (db w)" "action_state a \<noteq> action_state_value ActionState_SKIPPED"
  shows "no_skipped (db (snd (execute_action_once E m ts d T now a w)))"
proof -
  have put: "no_skipped (db (put_action b w))" if "action_state b \<noteq> action_state_value ActionState_SKIPPED" for b
    using assms(1) that by (auto simp: no_skipped_def dest!: in_put_rowD)
  have "verdict m out b \<noteq> ActionState_SKIPPED" for out b by (simp add: verdict_def)
  then show ?thesis
    using assms put
    by (cases "attempt_outcome (T (a\<lparr>action_attempts := action_attempts a + 1\<rparr>) ts)")
      (auto simp: execute_action_once_def Let_def split_beta settle_state no_skipped_audit no_skipped_now)
qed

lemma no_skipped_process_due:
  assumes "no_skipped (db w)"
  shows "no_skipped (db (snd (process_due_actions E limit m ts d ls T now w)))"
proof -
  let ?due = "due_actions E limit ls (fst (now_or E now w)) (snd (now_or E now w))"
  have "no_skipped (db (snd (for_each (lease_and_execute E m ts d T l t) ?due (snd (uuid4_hex E (snd (now_or E now w)))))))" for l t
  proof (rule for_each_invariant)
    fix a and v :: world assume a: "a \<in> set ?due" and v: "no_skipped (db v)"
    have "action_state a \<noteq> action_state_value ActionState_SKIPPED"
      using due_is_due [OF a] by (auto simp: is_due_def in_backlog_def)
    moreover from this have "no_skipped (db (put_action (lease l t a) v))"
      using v by (auto simp: no_skipped_def dest!: in_put_rowD)
    ultimately show "no_skipped (db (snd (lease_and_execute E m ts d T l t a v)))"
      unfolding lease_and_execute_def Let_def by (intro no_skipped_once) simp_all
  qed (use assms in \<open>simp add: uuid4_hex_def\<close>)
  then show ?thesis by (simp add: process_due_actions_def split_beta Let_def split: sum.split)
qed

lemma no_skipped_process_new:
  assumes "no_skipped (db w)"
  shows "no_skipped (db (snd (process_new E p w)))"
proof (cases "fst (process_new E p w)")
  case (Inl x)
  then show ?thesis using assms process_new_InlD [OF Inl] by (simp add: process_new_unknown)
next
  case (Inr x)
  obtain e i a sk where x: "x = (e, i, a, sk)" by (cases x) auto
  then have run: "process_new E p w = (Inr (e, i, a, sk), snd (process_new E p w))" using Inr by (simp add: prod_eq_iff)
  have rows: "actions (db (snd (process_new E p w))) = actions (db w) @ rows_of a"
    using process_new_rows [OF run] by blast
  have "action_state b = action_state_value ActionState_QUEUED" if "a = Some b" for b
  proof -
    have "fst (process_new E p w) = Inr (e, i, Some b, sk)" using Inr x that by simp
    then show ?thesis
      by (auto simp: process_new_def open_incident_def Let_def split_beta split: option.splits if_splits)
  qed
  then show ?thesis
    using assms rows by (cases a) (auto simp: no_skipped_def rows_of_def)
qed

lemma no_skipped_sweep: "no_skipped (db w) \<Longrightarrow> no_skipped (db (snd (run_health_sweep E m w)))"
proof -
  assume ok: "no_skipped (db w)"
  obtain new where "actions (db (snd (run_health_sweep E m w))) = actions (db w) @ new" "\<forall>a \<in> set new. fresh_follow_up m a"
    using follow_ups_actions [of E m _ "snd (now_utc E (snd (now_utc E w)))"]
    by (auto simp: run_health_sweep_def Let_def split_beta)
  with ok show ?thesis by (auto simp: no_skipped_def fresh_follow_up_def)
qed

lemma no_skipped_core: "core_rows d = core_rows d' \<Longrightarrow> no_skipped d = no_skipped d'"
  by (simp add: core_rows_def no_skipped_def)

lemma no_skipped_endpoint:
  assumes "alone E" "no_skipped (db v)" "saved v = db v"
  shows "no_skipped (db (snd (endpoint E r v)))"
proof -
  have proc: "no_skipped (db (snd (process E p v)))" for p
    using process_core [OF assms(1) assms(3) [symmetric], of p] no_skipped_process_new no_skipped_core assms(2)
    by metis
  have expire: "no_skipped (db (snd (expire_waiting_checks E None v)))"
  proof -
    have "actions (db (snd (for_each (\<lambda>c. transition_check E c g d ts n) cs (snd (now_or E None v))))) = actions (db v)" for g d ts n cs
      by (rule for_each_invariant) simp_all
    then show ?thesis using assms(2)
      by (simp add: expire_waiting_checks_def split_beta Let_def no_skipped_def split: sum.split)
  qed
  have seeded: "no_skipped (db (snd (seed_demo_data E v)))"
  proof -
    obtain x w1 where l1: "for_each (\<lambda>(ext, name, grp). add_asset E ext name grp ''unknown'') demo_assets v = (x, w1)"
      by fastforce
    obtain y w2 where l2: "for_each (\<lambda>(name, cat, minsev, cooldown, ty).
        add_rule E name cat minsev cooldown ty True) demo_rules w1 = (y, w2)"
      by fastforce
    have "core_rows (db w1) = core_rows (db v)" using seed_assets_keep(1) l1 by (metis snd_conv)
    then have "actions (db w1) = actions (db v)" by (simp add: core_rows_def)
    moreover have "actions (db (snd (for_each (\<lambda>(name, cat, minsev, cooldown, ty).
        add_rule E name cat minsev cooldown ty True) demo_rules w1))) = actions (db w1)"
      by (rule for_each_invariant) auto
    moreover have "saved w1 = saved v" "saved w2 = saved w1"
      using saved_for_each_seed(1) l1 saved_for_each_seed(2) l2 by (metis snd_conv)+
    ultimately show ?thesis
      using assms(2,3) l1 l2 by (auto simp: seed_demo_data_def no_skipped_def split: sum.split)
  qed
  have tables: "no_skipped (db (snd (transition_check E c g d ts n v)))"
    "no_skipped (db (snd (create_check E name ext detail n v)))" "no_skipped (db (snd (add_asset E a b e f v)))"
    "no_skipped (db (snd (add_rule E a b h i e k v)))" "no_skipped (db (reset_workload v))"
    "no_skipped (db (snd (metrics_of E v)))" for c g d ts n name ext detail a b e f h i k
    using assms(2) by (simp_all add: no_skipped_def create_check_def Let_def split_beta reset_workload_def)
  show ?thesis
    by (cases r) (simp_all add: endpoint_def snd_endpoints split_beta Let_def proc expire seeded tables assms(2)
        no_skipped_process_due no_skipped_sweep split: option.split)
qed

lemma reachable_no_skipped:
  assumes "env_ok E" "reachable E w"
  shows "no_skipped (db w)"
proof -
  note E = env_okD [OF assms(1)]
  have "no_skipped empty_database" by (simp add: no_skipped_def)
  then have "wf_db (saved w) \<and> no_skipped (saved w) \<and> db w = saved w"
  proof (rule reachable_invariant [of E w no_skipped, OF assms])
    show "no_skipped (db (snd (endpoint E r v)))" if "no_skipped (db v)" "saved v = db v" for r v
      using that by (rule no_skipped_endpoint [OF E(4)])
    show "no_skipped (db (snd (process_due_actions E limit m ts d ls default_transport now v)))"
      if "no_skipped (db v)" for limit m ts d ls now v
      using that by (rule no_skipped_process_due)
    show "no_skipped (with_record q d)" if "no_skipped d" for q d
      using that by (simp add: no_skipped_def)
  qed
  then show ?thesis by simp
qed

text \<open>Counting the actions of a list by state.\<close>

lemma count_states:
  assumes "\<forall>a \<in> set as. action_state a \<in> range action_state_value \<and> action_state a \<noteq> action_state_value ActionState_SKIPPED"
  shows "int (length as) = count_state ActionState_QUEUED as + count_state ActionState_RETRY as +
      count_state ActionState_SUCCEEDED as + count_state ActionState_FAILED as"
    "int (length (filter in_backlog as)) = count_state ActionState_QUEUED as + count_state ActionState_RETRY as"
    "int (length (filter is_processed as)) = count_state ActionState_SUCCEEDED as + count_state ActionState_FAILED as"
  using assms
proof (induction as)
  case Nil
  { case 1 show ?case by (simp add: count_state_def) }
  { case 2 show ?case by (simp add: count_state_def) }
  { case 3 show ?case by (simp add: count_state_def) }
next
  case (Cons a as)
  have "action_state a \<in> range action_state_value" "action_state a \<noteq> action_state_value ActionState_SKIPPED"
    if "\<forall>a \<in> set (a # as). action_state a \<in> range action_state_value \<and> action_state a \<noteq> action_state_value ActionState_SKIPPED"
    using that by simp_all
  then obtain s where s: "action_state a = action_state_value s" "s \<noteq> ActionState_SKIPPED"
    if "\<forall>a \<in> set (a # as). action_state a \<in> range action_state_value \<and> action_state a \<noteq> action_state_value ActionState_SKIPPED"
    by blast
  note facts = count_state_def in_backlog_def is_processed_def
  { case 1 with Cons.IH(1) s [OF 1] show ?case by (cases s) (simp_all add: facts) }
  { case 2 with Cons.IH(2) s [OF 2] show ?case by (cases s) (simp_all add: facts) }
  { case 3 with Cons.IH(3) s [OF 3] show ?case by (cases s) (simp_all add: facts) }
qed

lemma sum_list_max_nonneg: "0 \<le> sum_list (map (\<lambda>a. max (f a) (0::'b::linordered_ab_group_add)) as)"
  by (induction as) simp_all

lemma round3_nonneg: "0 \<le> x \<Longrightarrow> 0 \<le> round3 x"
  by (simp add: round3_def round_half_even_nonneg)

text \<open>
  C29. The metrics of a reachable world add up: every action is counted in exactly one of the
  four state counters, the backlog is the queued and retry actions, the processed ones are
  the succeeded and failed, permanent failures are among the failed, and the latency and
  the retry count are never negative.
\<close>

theorem metrics_add_up:
  assumes "env_ok E" "reachable E w" "metrics_of E w = (m, w')"
  shows "m_actions m = m_queued_actions m + m_retry_actions m + m_succeeded_actions m + m_failed_actions m \<and>
    m_queue_backlog m = m_queued_actions m + m_retry_actions m \<and>
    m_queue_backlog m = queue_backlog (db w) \<and>
    m_actions_processed m = m_succeeded_actions m + m_failed_actions m \<and>
    m_permanent_failures m \<le> m_failed_actions m \<and>
    0 \<le> m_retry_attempts m \<and> 0 \<le> m_action_latency_seconds m"
proof -
  have states: "\<forall>a \<in> set (actions (db w)). action_state a \<in> range action_state_value \<and>
      action_state a \<noteq> action_state_value ActionState_SKIPPED"
    using reachable_wf [OF assms(1,2)] reachable_no_skipped [OF assms(1,2)]
    by (simp add: wf_db_def actions_ok_def no_skipped_def)
  have m: "m = fst (metrics_of E w)" using assms(3) by simp
  have permanent: "int (length (filter (\<lambda>a. action_state a = action_state_value ActionState_FAILED \<and> P a) as))
      \<le> count_state ActionState_FAILED as" for P as
    by (induction as) (simp_all add: count_state_def)
  have "0 \<le> action_latency as" for as
    using sum_list_max_nonneg [of "\<lambda>a. total_seconds (action_updated_at a - action_created_at a)" "filter is_processed as"]
    by (simp add: action_latency_def Let_def round3_nonneg)
  moreover have "0 \<le> retry_attempts as" for as by (simp add: retry_attempts_def sum_list_max_nonneg)
  ultimately show ?thesis
    using count_states [OF states] permanent
    by (simp add: m metrics_of_def Let_def split_beta queue_backlog_def)
qed

theorem metrics_add_up_witness:
  "\<exists>m w'. metrics_of demo_env (snd (serve demo_env (PostEvents keyed_payload) demo_world)) = (m, w') \<and>
     m_actions m = m_queued_actions m + m_retry_actions m + m_succeeded_actions m + m_failed_actions m"
proof -
  obtain m w' where run: "metrics_of demo_env (snd (serve demo_env (PostEvents keyed_payload) demo_world)) = (m, w')"
    by fastforce
  from metrics_add_up [OF demo_env_env_ok reachable.request [OF reachable_demo] run] run show ?thesis by blast
qed

end
