(* ===== verification/History.thy ===== *)
theory History
  imports Service
begin

text \<open>
  The history the service keeps: whatever requests and worker runs come, short of a
  reset, no row is ever removed, what happened (events, incidents, audit entries, job runs)
  is never rewritten, and a finished action, a finished check and a stored result stay as
  they are.
\<close>

section \<open>What a row may become\<close>

definition asset_kept :: "asset \<Rightarrow> asset \<Rightarrow> bool" where
  "asset_kept a b \<longleftrightarrow>
     asset_id b = asset_id a \<and> asset_external_id b = asset_external_id a \<and>
     asset_name b = asset_name a \<and> asset_group b = asset_group a"

definition action_kept :: "action \<Rightarrow> action \<Rightarrow> bool" where
  "action_kept a b \<longleftrightarrow>
     action_id b = action_id a \<and> action_incident_id b = action_incident_id a \<and>
     action_action_type b = action_action_type a \<and> action_created_at b = action_created_at a \<and>
     action_attempts a \<le> action_attempts b \<and>
     (action_state a \<in> {''succeeded'', ''failed'', ''skipped''} \<longrightarrow> b = a)"

definition check_kept :: "check_run \<Rightarrow> check_run \<Rightarrow> bool" where
  "check_kept c d \<longleftrightarrow>
     check_id d = check_id c \<and> check_name d = check_name c \<and>
     check_asset_external_id d = check_asset_external_id c \<and> check_created_at d = check_created_at c \<and>
     (check_state c \<in> {''confirmed'', ''timeout'', ''cancelled'', ''failed''} \<longrightarrow> d = c)"

definition idem_kept :: "idempotency_record \<Rightarrow> idempotency_record \<Rightarrow> bool" where
  "idem_kept r s \<longleftrightarrow>
     idem_id s = idem_id r \<and> idem_key s = idem_key r \<and> idem_created_at s = idem_created_at r \<and>
     idem_hits r \<le> idem_hits s \<and>
     (idem_event_id r \<noteq> None \<longrightarrow>
        idem_event_id s = idem_event_id r \<and> idem_incident_id s = idem_incident_id r \<and>
        idem_action_id s = idem_action_id r \<and> idem_skipped_reason s = idem_skipped_reason r)"

definition history_kept :: "database \<Rightarrow> database \<Rightarrow> bool" where
  "history_kept d d' \<longleftrightarrow>
     extends (=) (rules d) (rules d') \<and> extends (=) (events d) (events d') \<and>
     extends (=) (incidents d) (incidents d') \<and> extends (=) (audits d) (audits d') \<and>
     extends (=) (jobs d) (jobs d') \<and> extends asset_kept (assets d) (assets d') \<and>
     extends action_kept (actions d) (actions d') \<and> extends check_kept (checks d) (checks d') \<and>
     extends idem_kept (idems d) (idems d')"

lemma kept_reflp [simp]:
  "reflp asset_kept" "reflp action_kept" "reflp check_kept" "reflp idem_kept" "reflp (=)"
  by (simp_all add: reflp_def asset_kept_def action_kept_def check_kept_def idem_kept_def)

lemma kept_transp: "transp asset_kept" "transp action_kept" "transp check_kept" "transp idem_kept" "transp (=)"
  by (rule transpI, auto simp: asset_kept_def action_kept_def check_kept_def idem_kept_def)+

lemma history_trans: "history_kept d d' \<Longrightarrow> history_kept d' d'' \<Longrightarrow> history_kept d d''"
  unfolding history_kept_def by (intro conjI; elim conjE; rule extends_trans [OF kept_transp(1)] extends_trans [OF kept_transp(2)]
      extends_trans [OF kept_transp(3)] extends_trans [OF kept_transp(4)] extends_trans [OF kept_transp(5)]; assumption)

interpretation history: state_order "\<lambda>v w. history_kept (db v) (db w)"
  by unfold_locales (simp add: history_kept_def, rule history_trans)

section \<open>Processing an event\<close>

lemma history_same:
  "db w' = db w \<Longrightarrow> history_kept (db w) (db w')"
  by (simp add: history.le_refl)

lemma extends_audits [simp]:
  assumes "extends (=) ls (audits (db w))"
  shows "extends (=) ls (audits (db (add_audit E et en ei msg w)))"
proof -
  obtain l where "audits (db (add_audit E et en ei msg w)) = audits (db w) @ [l]" by (simp add: add_audit_def Let_def)
  then show ?thesis using extends_trans [OF kept_transp(5) assms, of "audits (db w) @ [l]"] by simp
qed

lemma history_add_audit: "history_kept (db w) (db (add_audit E et en ei msg w))"
  by (simp add: history_kept_def)

lemma history_record:
  assumes "wf w" "a \<in> set (assets (db w))"
  shows "history_kept (db w) (db (snd (record_event E p a w)))"
proof -
  have "extends asset_kept (assets (db w)) (put_row asset_id (a\<lparr>asset_status := ec_category p\<rparr>) (assets (db w)))"
    using assms by (intro extends_put_stored [where x = a]) (simp_all add: wf_db_def assets_ok_def asset_kept_def)
  then show ?thesis by (simp add: history_kept_def)
qed

lemma history_open: "history_kept (db w) (db (snd (open_incident E p a r e w)))"
  by (simp add: open_incident_def Let_def split_beta history_kept_def)

lemma history_process_new:
  assumes "wf w"
  shows "history_kept (db w) (db (snd (process_new E p w)))"
proof (cases "find_asset (ec_asset_external_id p) w")
  case None
  then show ?thesis by (simp add: process_new_unknown history_same)
next
  case (Some a)
  then have a: "a \<in> set (assets (db w))" by (auto simp: find_asset_def dest: find_row_SomeD)
  obtain e w1 where rec: "record_event E p a w = (e, w1)" by fastforce
  have first: "history_kept (db w) (db w1)" using history_record [OF assms a, of E p] rec by simp
  have "history_kept (db w1) (db (snd (process_new E p w)))"
  proof (cases "match E e w1")
    case None
    with process_new_no_rule [OF Some rec] show ?thesis by (simp add: history_add_audit)
  next
    case r: (Some r)
    let ?w2 = "snd (in_cooldown E a (rule_cooldown_minutes r) w1)"
    have same: "db ?w2 = db w1" by simp
    show ?thesis
    proof (cases "fst (in_cooldown E a (rule_cooldown_minutes r) w1)")
      case True
      with process_new_suppressed [OF Some rec r] history_add_audit [of ?w2] show ?thesis unfolding same by simp
    next
      case False
      with process_new_opened [OF Some rec r] history_open [of ?w2] show ?thesis unfolding same by simp
    qed
  qed
  with first show ?thesis by (rule history_trans)
qed

lemma history_put_idem:
  assumes "wf w" "r \<in> set (idems (db w))" "idem_kept r q"
  shows "history_kept (db w) (db (put_idem q w))"
proof -
  have "extends idem_kept (idems (db w)) (put_row idem_id q (idems (db w)))"
    using assms by (intro extends_put_stored [where x = r]) (simp_all add: wf_db_def idems_ok_def idem_kept_def)
  then show ?thesis by (simp add: history_kept_def)
qed

lemma history_replay:
  assumes "wf w" "r \<in> set (idems (db w))"
  shows "history_kept (db w) (db (snd (replay_idempotent_record E r w)))"
proof -
  let ?q = "r\<lparr>idem_hits := idem_hits r + 1, idem_updated_at := clock E (reads w)\<rparr>"
  have put: "history_kept (db w) (db (put_idem ?q (snd (now_utc E w))))"
    using history_put_idem [of "snd (now_utc E w)" r ?q] assms by (simp add: idem_kept_def)
  have "db (snd (replay_idempotent_record E r w)) =
      db (add_audit E ''idempotency_hit'' ''idempotency_record'' (idem_id r) ''Reused idempotent event result''
        (put_idem ?q (snd (now_utc E w))))"
    by (simp add: replay_idempotent_record_def Let_def split_beta split: option.split)
  with history_trans [OF put history_add_audit] show ?thesis by metis
qed

lemma history_wait:
  assumes "alone E" "wf w"
  shows "history_kept (db w) (db (snd (wait_for_idempotent_result E k n w)))"
  using assms(2)
proof (induction n arbitrary: w)
  case 0
  then show ?case by (simp add: history_same)
next
  case (Suc n)
  show ?case
  proof (cases "completed k w")
    case True
    then obtain r where "find_idem k w = Some r" by (auto simp: completed_def)
    with True history_replay [OF Suc.prems] find_idemD show ?thesis by (simp add: wait_step del: wait_for_idempotent_result.simps)
  next
    case False
    have "wf (peer_commit E w)" using Suc.prems assms(1) by simp
    from Suc.IH [OF this] show ?thesis
      using False assms(1) by (simp add: wait_step del: wait_for_idempotent_result.simps)
  qed
qed

lemma history_add_idem: "history_kept (db w) (db (snd (add_idem E k w)))"
  by (simp add: history_kept_def) (simp add: add_idem_def Let_def)

lemma history_with_idempotency:
  assumes "ids_ok E" "scans_ok E" "alone E" "wf w" "db w = saved w"
  shows "history_kept (db w) (db (snd (process_with_idempotency E k p w)))"
proof (cases "\<exists>r \<in> set_option (find_idem k w). idem_event_id r \<noteq> None")
  case True
  then obtain r where "find_idem k w = Some r" by auto
  with True history_replay [OF assms(4)] find_idemD show ?thesis by (simp add: process_with_idempotency_def)
next
  case False
  let ?v = "peer_commit E w"
  have v: "wf ?v" "db ?v = db w" "saved ?v = saved w" using assms by simp_all
  obtain x w1 where ins: "add_idem E k ?v = (x, w1)" by fastforce
  show ?thesis
  proof (cases x)
    case (Inl e)
    then have w1: "w1 = ?v" using add_idem_InlD [of E k ?v e w1] ins by simp
    have "wf (rollback w1)" using v assms(4,5) w1 by simp
    from history_wait [OF assms(3) this, of k 100] show ?thesis
      using False ins Inl v(3) w1 assms(5) by (simp add: process_with_idempotency_def)
  next
    case (Inr r)
    note rows = add_idem_InrD [OF ins [unfolded Inr]]
    have wf1: "wf w1" using wf_add_idem [OF assms(1) v(1), of k] ins by simp
    have new: "history_kept (db w) (db w1)" using history_add_idem [of ?v E k] ins v(2) by simp
    let ?v1 = "release_savepoint ?v w1"
    obtain y w2 where pn: "process_new E p ?v1 = (y, w2)" by fastforce
    have wf1': "wf ?v1" using wf1 by simp
    have mid: "history_kept (db w) (db w2)"
      using history_trans [OF new] history_process_new [OF wf1', of E p] pn by simp
    show ?thesis
    proof (cases y)
      case (Inl e)
      then show ?thesis using False ins \<open>x = Inr r\<close> pn mid by (simp add: process_with_idempotency_def)
    next
      case (Inr z)
      obtain e i a sk where z: "z = (e, i, a, sk)" by (cases z)
      let ?q = "r\<lparr>idem_event_id := Some (event_id e), idem_incident_id := map_option incident_id i,
          idem_action_id := map_option action_id a, idem_skipped_reason := sk, idem_updated_at := clock E (reads w2)\<rparr>"
      have wf2: "wf (snd (now_utc E w2))" using wf_process_new [OF assms(1,2) wf1', of p] pn by simp
      have "r \<in> set (idems (db (snd (now_utc E w2))))" using rows process_new_frame(3) [of E p ?v1] pn by simp
      then have "history_kept (db w2) (db (put_idem ?q (snd (now_utc E w2))))"
        using history_put_idem [OF wf2, of r ?q] rows by (simp add: idem_kept_def)
      with history_trans [OF mid] show ?thesis
        using False ins \<open>x = Inr r\<close> pn Inr z by (simp add: process_with_idempotency_def Let_def split_beta)
    qed
  qed
qed

lemma history_process:
  assumes "ids_ok E" "scans_ok E" "alone E" "wf w" "db w = saved w"
  shows "history_kept (db w) (db (snd (process E p w)))"
  using history_with_idempotency [OF assms] history_process_new [OF assms(4), of E p]
  by (simp add: process_def split_beta split: sum.split)

section \<open>Working on the queue\<close>

lemma attempted_kept:
  assumes "live a"
  shows "action_kept a (attempted m ts d T l now a)"
proof -
  have "action_action_type (attempted m ts d T l now a) = action_action_type a"
    "action_created_at (attempted m ts d T l now a) = action_created_at a"
    by (simp_all add: attempted_def settle_def lease_def Let_def)
  then show ?thesis using assms by (simp add: action_kept_def live_def state_values)
qed

lemma once_audits: "extends (=) ls (audits (db w)) \<Longrightarrow>
    extends (=) ls (audits (db (snd (execute_action_once E m ts d T now a w))))"
  by (simp add: execute_action_once_def Let_def split_beta split: sum.split)

lemma round_audits: "extends (=) (audits (db w)) (audits (db (snd (for_each (lease_and_execute E m ts d T l now) due w))))"
  by (rule for_each_invariant) (simp_all add: lease_and_execute_def Let_def once_audits)

lemma round_refused:
  assumes "\<not> 1 \<le> m" "fst (process_due_actions E limit m ts d ls T now w) = Inr st"
  shows "db (snd (process_due_actions E limit m ts d ls T now w)) = db w"
proof -
  let ?due = "due_actions E limit ls (fst (now_or E now w)) (snd (now_or E now w))"
  have "?due = []"
  proof (cases ?due)
    case (Cons a as)
    with assms show ?thesis
      by (simp add: process_due_actions_def split_beta Let_def lease_and_execute_def execute_action_once_def)
  qed
  then show ?thesis by (simp add: process_due_actions_def split_beta Let_def uuid4_hex_def)
qed

lemma history_process_due:
  assumes "scans_ok E" "wf w" "handled T" "fst (process_due_actions E limit m ts d ls T now w) = Inr st"
  shows "history_kept (db w) (db (snd (process_due_actions E limit m ts d ls T now w)))"
proof (cases "1 \<le> m")
  case False
  with round_refused [OF False assms(4)] show ?thesis by (simp add: history_same)
next
  case True
  let ?w' = "snd (process_due_actions E limit m ts d ls T now w)"
  let ?due = "round_due E limit ls now w"
    and ?row = "attempted m ts d T (round_lease E now w) (round_time E now w)"
  have rows: "actions (db ?w') = map (\<lambda>a. if a \<in> set ?due then ?row a else a) (actions (db w))"
    using process_due_eq [OF assms(1,2) True assms(3), of limit ts d ls now] by auto
  have "extends action_kept (actions (db w)) (actions (db ?w'))"
    unfolding rows
  proof (rule extends_map)
    show "action_kept a (if a \<in> set ?due then ?row a else a)" for a
      using attempted_kept [of a] round_due_facts(3) [OF assms(1,2), of limit ls now] by (simp add: action_kept_def)
  qed
  moreover have "extends (=) (audits (db w)) (audits (db ?w'))"
    using round_audits [of "snd (uuid4_hex E (snd (now_or E now w)))" E m ts d T]
    by (simp add: process_due_actions_def split_beta Let_def uuid4_hex_def split: sum.split)
  ultimately show ?thesis
    by (simp add: history_kept_def process_due_actions_def split_beta Let_def uuid4_hex_def split: sum.split)
qed

section \<open>Checks, jobs and master data\<close>

lemma moved_kept: "check_state c \<notin> finished_values \<Longrightarrow> check_kept c (moved g d ts t c)"
  by (auto simp: check_kept_def moved_def Let_def finished_values_def state_values split: option.split)

lemma history_transition:
  assumes "wf w" "c \<in> set (checks (db w))"
  shows "history_kept (db w) (db (snd (transition_check E c g d ts now w)))"
proof (cases "str_lower g \<in> (case allowed_transitions (check_state c) of Some s \<Rightarrow> s | None \<Rightarrow> {})")
  case False
  then show ?thesis by (simp add: transition_check_def Let_def split_beta history_same)
next
  case True
  let ?v = "snd (now_or E now w)" and ?c1 = "moved (str_lower g) d ts (fst (now_or E now w)) c"
  have "check_state c \<notin> finished_values"
    using True by (auto simp: allowed_transitions_def finished_values_def split: if_splits)
  then have "extends check_kept (checks (db ?v)) (put_row check_id ?c1 (checks (db ?v)))"
    using assms moved_kept by (intro extends_put_stored [where x = c]) (simp_all add: wf_db_def checks_ok_def)
  then have "history_kept (db ?v) (db (put_check ?c1 ?v))" by (simp add: history_kept_def put_check_def)
  from history_trans [OF this history_add_audit] show ?thesis
    using True by (simp add: transition_check_def Let_def split_beta audit_check_def)
qed

lemma expire_audits: "extends (=) (audits (db w)) (audits (db (snd (expire_waiting_checks E now w))))"
proof -
  have step: "extends (=) ls (audits (db (snd (transition_check E c g d ts n v))))"
    if "extends (=) ls (audits (db v))" for ls c g d ts n and v :: world
    using that by (simp add: transition_check_def Let_def split_beta audit_check_def put_check_def)
  have "extends (=) (audits (db w)) (audits (db (snd (for_each (\<lambda>c. transition_check E c g d ts n) cs (snd (now_or E now w))))))"
    for g d ts n cs
    by (rule for_each_invariant) (simp_all add: step)
  then show ?thesis by (simp add: expire_waiting_checks_def split_beta Let_def split: sum.split)
qed

lemma expired_kept: "overdue t c \<Longrightarrow> check_kept c (expired t c)"
  unfolding expired_def by (rule moved_kept) (simp add: overdue_def finished_values_def)

lemma history_expire:
  assumes "scans_ok E" "wf w"
  shows "history_kept (db w) (db (snd (expire_waiting_checks E now w)))"
proof -
  let ?w' = "snd (expire_waiting_checks E now w)" and ?t = "fst (now_or E now w)"
  have "checks (db ?w') = map (\<lambda>c. if overdue ?t c then expired ?t c else c) (checks (db w))"
    using expire_eq [OF assms, of now] by auto
  moreover have "check_kept c (if overdue ?t c then expired ?t c else c)" for c
    using expired_kept [of ?t c] by (simp add: check_kept_def)
  ultimately have "extends check_kept (checks (db w)) (checks (db ?w'))" by (simp add: extends_map)
  moreover have "assets (db ?w') = assets (db w)" "rules (db ?w') = rules (db w)" "events (db ?w') = events (db w)"
    "incidents (db ?w') = incidents (db w)" "actions (db ?w') = actions (db w)" "idems (db ?w') = idems (db w)"
    "jobs (db ?w') = jobs (db w)"
    by (simp_all add: expire_waiting_checks_def split_beta Let_def split: sum.split) (rule for_each_invariant; simp)+
  ultimately show ?thesis using expire_audits [of w E now] by (simp add: history_kept_def)
qed

lemma history_create_check: "history_kept (db w) (db (snd (create_check E name ext d now w)))"
  by (simp add: create_check_def Let_def split_beta audit_check_def history_kept_def)

lemma history_follow_ups: "history_kept (db w) (db (fold (add_follow_up E m) is w))"
  by (rule history.fold_le) (simp add: history_kept_def add_follow_up_def)

lemma history_add_job: "history_kept (db w) (db (add_job E a b c t w))"
  by (simp add: history_kept_def) (simp add: add_job_def Let_def)

lemma history_sweep: "history_kept (db w) (db (snd (run_health_sweep E m w)))"
proof -
  let ?v = "snd (now_utc E (snd (now_utc E w)))"
  have "history_kept (db w) (db (fold (add_follow_up E m) is ?v))" for "is"
    using history_follow_ups [of ?v E m "is"] by simp
  from history_trans [OF this history_add_job] show ?thesis
    unfolding run_health_sweep_def Let_def split_beta snd_conv .
qed

lemma history_add_asset: "history_kept (db w) (db (snd (add_asset E a b c d w)))"
  by (simp add: history_kept_def) (simp add: add_asset_def Let_def)

lemma history_add_rule: "history_kept (db w) (db (snd (add_rule E a b c d e f w)))"
  by (simp add: history_kept_def) (simp add: add_rule_def Let_def)

lemma history_seed:
  assumes "saved w = db w"
  shows "history_kept (db w) (db (snd (seed_demo_data E w)))"
proof -
  let ?fa = "\<lambda>(ext, name, grp). add_asset E ext name grp ''unknown''"
    and ?fr = "\<lambda>(name, cat, minsev, cooldown, ty). add_rule E name cat minsev cooldown ty True"
  obtain x w1 where l1: "for_each ?fa demo_assets w = (x, w1)" by fastforce
  obtain y w2 where l2: "for_each ?fr demo_rules w1 = (y, w2)" by fastforce
  have a: "history_kept (db v) (db (snd (?fa r v)))" for r v by (cases r) (simp add: history_add_asset)
  have r: "history_kept (db v) (db (snd (?fr r v)))" for r v by (cases r) (simp add: history_add_rule)
  have k1: "history_kept (db w) (db w1)" using history.for_each_le [of demo_assets ?fa w] a l1 by simp
  have k2: "history_kept (db w1) (db w2)" using history.for_each_le [of demo_rules ?fr w1] r l2 by simp
  have s1: "saved w1 = db w" using saved_for_each_seed(1) [of E "''unknown''" demo_assets w] l1 assms by simp
  have s2: "saved w2 = db w" using saved_for_each_seed(2) [of E True demo_rules w1] l2 s1 by simp
  have "db (snd (seed_demo_data E w)) \<in> {db w, db w2}"
    unfolding seed_demo_data_def l1 prod.case using l2 s1 s2 by (cases x; cases y) simp_all
  then show ?thesis using history_trans [OF k1 k2] history.le_refl [of w] by (elim insertE) simp_all
qed

section \<open>Requests and worker runs\<close>

lemma fst_returning: "fst (returning f o1) = Inr x \<Longrightarrow> \<exists>y. fst o1 = Inr y"
  by (cases o1) (auto simp: returning_def split: sum.splits)

lemma history_endpoint:
  assumes E: "env_ok E" and v: "wf v" "saved v = db v"
    and r: "r \<noteq> DeleteAdminReset" and ok: "fst (endpoint E r v) = Inr x"
  shows "history_kept (db v) (db (snd (endpoint E r v)))"
proof (cases r)
  case (PostEvents p)
  have "history_kept (db v) (db (snd (process E p v)))"
    by (rule history_process [OF env_okD(1,2,4) [OF E] v(1) v(2) [symmetric]])
  then show ?thesis by (simp add: PostEvents endpoint_def snd_ingest_event)
next
  case PostProcessActions
  then obtain st where "fst (process_actions E v) = Inr st"
    using ok fst_returning [of R_action_stats "process_actions E v"] by (auto simp: endpoint_def)
  from history_process_due [OF env_okD(2) [OF E] v(1) default_transport_handled this [unfolded process_actions_def]]
  show ?thesis by (simp add: PostProcessActions endpoint_def process_actions_def)
next
  case (PostCheckTransition c b)
  have "history_kept (db v) (db (snd (transition_check E k g d ts None v)))" if "get_check v c = Some k" for k g d ts
    by (rule history_transition [OF v(1)]) (use that find_row_SomeD in \<open>fastforce simp: get_check_def\<close>)
  then show ?thesis
    by (simp add: PostCheckTransition endpoint_def snd_transition_check_run history_same split: option.split)
next
  case PostExpireTimeouts
  then show ?thesis
    using history_expire [OF env_okD(2) [OF E] v(1)] by (simp add: endpoint_def expire_check_timeouts_def)
next
  case PostDemoSeed
  then show ?thesis using history_seed [OF v(2)] by (simp add: endpoint_def snd_seed)
next
  case PostHealthSweep
  then show ?thesis using history_sweep [of v E] by (simp add: endpoint_def health_sweep_def split_beta Let_def)
qed (use r in \<open>simp_all add: endpoint_def snd_create_asset snd_create_rule snd_create_check_run split_beta Let_def
    history_create_check history_add_asset history_add_rule history.le_refl\<close>)

text \<open>What follows a world: requests other than a reset, and runs of workers.\<close>

inductive later :: "env \<Rightarrow> world \<Rightarrow> world \<Rightarrow> bool" for E :: env and w :: world where
  now: "later E w w"
| request: "later E w v \<Longrightarrow> r \<noteq> DeleteAdminReset \<Longrightarrow> later E w (snd (serve E r v))"
| worker: "later E w v \<Longrightarrow> later E w (snd (run_once E wk limit now v))"

definition stored_after :: "database \<Rightarrow> world \<Rightarrow> bool" where
  "stored_after d v \<longleftrightarrow> wf_db (saved v) \<and> history_kept d (saved v) \<and> db v = saved v"

lemma stored_after_request:
  assumes E: "env_ok E" and r: "r \<noteq> DeleteAdminReset" and v: "stored_after d v"
  shows "stored_after d (snd (serve E r v))"
proof -
  have "wf_db (db (snd (endpoint E r u))) \<and> history_kept d (db (snd (endpoint E r u)))"
    if "wf_db (db u) \<and> history_kept d (db u)" "saved u = db u" "fst (endpoint E r u) = Inr x" for u x
  proof
    show "wf_db (db (snd (endpoint E r u)))"
      using world_ok_endpoint [OF env_okD(1,2,5) [OF E], of u r] that by (simp add: world_ok_def)
    show "history_kept d (db (snd (endpoint E r u)))"
      using history_trans [OF _ history_endpoint [OF E _ that(2) r that(3)]] that(1) by simp
  qed
  moreover have "wf_db (with_record q u) \<and> history_kept d (with_record q u)"
    if "wf_db u \<and> history_kept d u" "left_record E p q u" for p q u
  proof -
    have "history_kept u (with_record q u)" by (simp add: history_kept_def)
    then show ?thesis using that wf_with_record [OF env_okD(1) [OF E]] history_trans by blast
  qed
  ultimately show ?thesis
    using serve_invariant [of E "\<lambda>d'. wf_db d' \<and> history_kept d d'" v r] env_okD(4) [OF E] v by (simp add: stored_after_def)
qed

lemma stored_after_worker:
  assumes E: "env_ok E" and v: "stored_after d v"
  shows "stored_after d (snd (run_once E wk limit now v))"
proof -
  let ?body = "process_due_actions E limit (worker_max_attempts wk) (worker_timeout_seconds wk)
      (worker_retry_delay_seconds wk) (worker_lease_seconds wk) default_transport now"
  have wf: "world_ok (snd (run_once E wk limit now v))"
    using world_ok_run_once [OF env_okD(1,2) [OF E]] v by (simp add: stored_after_def world_ok_def)
  have "history_kept d (saved (snd (in_worker_session ?body v)))"
  proof (cases "fst (?body (rollback v))")
    case (Inl e)
    then show ?thesis using worker_scope.run_saved [of ?body v] v
      by (simp add: stored_after_def process_due_saved)
  next
    case (Inr st)
    have "history_kept (saved v) (db (snd (?body (rollback v))))"
      using history_process_due [OF env_okD(2) [OF E] _ default_transport_handled Inr] v
      by (simp add: stored_after_def)
    then have "history_kept d (db (snd (?body (rollback v))))"
      by (rule history_trans [rotated]) (use v in \<open>simp add: stored_after_def\<close>)
    with Inr show ?thesis using worker_scope.run_saved [of ?body v] by simp
  qed
  then show ?thesis
    using wf worker_scope.run_clean [of ?body v] by (simp add: stored_after_def run_once_def world_ok_def)
qed

text \<open>
  C9. Short of a reset the history only grows. Whatever requests are served and whatever
  workers run after a reachable database, every row it held is still there, in its place:
  the rules, events, incidents, audit entries and job runs unchanged, an asset with its
  identity and name, an action with its incident and type, at least as many attempts, and
  unchanged once it is finished, a check unchanged once it is finished, and an idempotency
  record with the result it once stored.
\<close>

theorem history_append_only:
  assumes "env_ok E" "reachable E w" "later E w w'"
  shows "history_kept (db w) (db w')"
proof -
  have clean: "wf_db (saved w) \<and> True \<and> db w = saved w"
    by (rule reachable_invariant [OF assms(1,2), where I = "\<lambda>_. True"]) simp_all
  from assms(3) have "stored_after (db w) w'"
  proof (induction rule: later.induct)
    case now
    from clean show ?case by (simp add: stored_after_def history_kept_def)
  next
    case (request v r)
    show ?case by (rule stored_after_request [OF assms(1) request.hyps(2) request.IH])
  next
    case (worker v wk limit now)
    show ?case by (rule stored_after_worker [OF assms(1) worker.IH])
  qed
  then show ?thesis by (simp add: stored_after_def)
qed

theorem history_append_only_witness:
  "\<exists>w w' a. reachable demo_env w \<and> later demo_env w w' \<and> actions (db w) = [a] \<and>
     extends action_kept [a] (actions (db w')) \<and> action_kept a (actions (db w') ! 0)"
proof -
  let ?w = "snd (serve demo_env (PostEvents keyed_payload) demo_world)"
  let ?w' = "snd (run_once demo_env default_worker 100 None (snd (serve demo_env PostProcessActions ?w)))"
  obtain e i a v where "process demo_env keyed_payload demo_world = (Inr (e, Some i, Some a, None, False), v)"
    "length (actions (db v)) = 1"
    using keyed_run by blast
  then have "length (actions (db ?w)) = 1" by (simp add: serve_event)
  then obtain b where b: "actions (db ?w) = [b]" by (auto simp: length_Suc_conv)
  have reach: "reachable demo_env ?w" by (rule reachable.request [OF reachable_demo])
  have later: "later demo_env ?w ?w'" by (rule later.worker [OF later.request [OF later.now]]) simp
  have kept: "extends action_kept [b] (actions (db ?w'))"
    using history_append_only [OF demo_env_env_ok reach later] b by (simp add: history_kept_def)
  then have "action_kept b (actions (db ?w') ! 0)" by (cases "actions (db ?w')") (simp_all add: extends_def)
  with b reach later kept show ?thesis by blast
qed

end
