(* ===== verification/Columns.thy ===== *)
theory Columns
  imports Service
begin

text \<open>
  The column types of \<open>models.py\<close>: which of the declared types (enumeration values, value
  ranges of the schemas, \<open>String(n)\<close> widths) every stored row satisfies. SQLite, the
  engine of the model, does not enforce a width; engines that do would reject a longer value,
  so the widths are obligations of the code. Two columns are written wider than declared.
\<close>

section \<open>Typed rows\<close>

definition fits :: "nat \<Rightarrow> string \<Rightarrow> bool" where
  "fits n s \<longleftrightarrow> length s \<le> n"

lemma fits_simps [simp]:
  "fits n [] " "fits n (c # s) \<longleftrightarrow> 0 < n \<and> fits (n - 1) s"
  by (auto simp: fits_def)

lemma len_between_fits: "len_between lo hi s \<Longrightarrow> hi \<le> n \<Longrightarrow> fits n s"
  by (simp add: len_between_def fits_def)

text \<open>\<open>status\<close> is declared as \<open>String(40)\<close>.\<close>

definition asset_typed :: "asset \<Rightarrow> bool" where
  "asset_typed a \<longleftrightarrow> fits 80 (asset_external_id a) \<and> fits 120 (asset_name a) \<and> fits 80 (asset_group a) \<and>
     fits 80 (asset_status a)"

definition rule_typed :: "automation_rule \<Rightarrow> bool" where
  "rule_typed r \<longleftrightarrow> fits 120 (rule_name r) \<and> fits 80 (rule_category r) \<and> fits 80 (rule_action_type r) \<and>
     1 \<le> rule_minimum_severity r \<and> rule_minimum_severity r \<le> 100 \<and>
     0 \<le> rule_cooldown_minutes r \<and> rule_cooldown_minutes r \<le> 1440"

definition event_typed :: "operational_event \<Rightarrow> bool" where
  "event_typed e \<longleftrightarrow> fits 120 (event_source e) \<and> fits 80 (event_category e) \<and>
     1 \<le> event_severity e \<and> event_severity e \<le> 100 \<and> fits 80 (event_correlation_id e)"

text \<open>\<open>summary\<close> is declared as \<open>String(200)\<close>.\<close>

definition incident_typed :: "incident \<Rightarrow> bool" where
  "incident_typed i \<longleftrightarrow> incident_state i \<in> range incident_state_value \<and> fits 292 (incident_summary i)"

definition action_typed :: "action \<Rightarrow> bool" where
  "action_typed a \<longleftrightarrow> fits 80 (action_action_type a) \<and> action_state a \<in> range action_state_value \<and>
     0 \<le> action_attempts a \<and> pred_option (fits 80) (action_lease_id a)"

definition audit_typed :: "audit_log \<Rightarrow> bool" where
  "audit_typed l \<longleftrightarrow> fits 80 (audit_event_type l) \<and> fits 80 (audit_entity_type l)"

definition idem_typed :: "idempotency_record \<Rightarrow> bool" where
  "idem_typed r \<longleftrightarrow> fits 120 (idem_key r) \<and> pred_option (fits 80) (idem_skipped_reason r)"

definition job_typed :: "job_run \<Rightarrow> bool" where
  "job_typed j \<longleftrightarrow> fits 120 (job_name j) \<and> fits 40 (job_status j)"

definition check_typed :: "check_run \<Rightarrow> bool" where
  "check_typed c \<longleftrightarrow> fits 120 (check_name c) \<and> fits 80 (check_asset_external_id c) \<and>
     check_state c \<in> range check_state_value"

lemmas row_typed_defs =
  asset_typed_def rule_typed_def event_typed_def incident_typed_def action_typed_def audit_typed_def
  idem_typed_def job_typed_def check_typed_def

definition typed_db :: "database \<Rightarrow> bool" where
  "typed_db d \<longleftrightarrow>
     (\<forall>a \<in> set (assets d). asset_typed a) \<and> (\<forall>r \<in> set (rules d). rule_typed r) \<and>
     (\<forall>e \<in> set (events d). event_typed e) \<and> (\<forall>i \<in> set (incidents d). incident_typed i) \<and>
     (\<forall>a \<in> set (actions d). action_typed a) \<and> (\<forall>l \<in> set (audits d). audit_typed l) \<and>
     (\<forall>r \<in> set (idems d). idem_typed r) \<and> (\<forall>j \<in> set (jobs d). job_typed j) \<and>
     (\<forall>c \<in> set (checks d). check_typed c)"

abbreviation typed :: "world \<Rightarrow> bool" where
  "typed w \<equiv> typed_db (db w)"

text \<open>The hexadecimal form of a UUID has 32 digits.\<close>

definition uuid_ok :: "env \<Rightarrow> bool" where
  "uuid_ok E \<longleftrightarrow> (\<forall>n. length (uuid_hex E n) = 32)"

section \<open>Every primitive keeps the types\<close>

lemma typed_add_event:
  "typed w \<Longrightarrow> fits 120 src \<Longrightarrow> fits 80 cat \<Longrightarrow> 1 \<le> sev \<Longrightarrow> sev \<le> 100 \<Longrightarrow> fits 80 corr \<Longrightarrow>
   typed (snd (add_event E aid src cat sev msg corr w))"
  by (auto simp: typed_db_def add_event_def Let_def event_typed_def)

lemma typed_add_incident:
  "typed w \<Longrightarrow> st \<in> range incident_state_value \<Longrightarrow> fits 292 summary \<Longrightarrow>
   typed (snd (add_incident E aid rid eid st summary w))"
  by (auto simp: typed_db_def add_incident_def Let_def incident_typed_def)

lemma typed_add_action:
  "typed w \<Longrightarrow> fits 80 ty \<Longrightarrow> typed (snd (add_action E iid ty detail next_at w))"
  by (auto simp: typed_db_def add_action_def Let_def action_typed_def)

lemma typed_add_audit: "typed w \<Longrightarrow> fits 80 et \<Longrightarrow> fits 80 en \<Longrightarrow> typed (add_audit E et en ei msg w)"
  by (auto simp: typed_db_def add_audit_def audit_typed_def)

lemma typed_add_job: "typed w \<Longrightarrow> fits 120 name \<Longrightarrow> fits 40 status \<Longrightarrow> typed (add_job E name status detail fin w)"
  by (auto simp: typed_db_def add_job_def job_typed_def)

lemma typed_add_check:
  "typed w \<Longrightarrow> fits 120 name \<Longrightarrow> fits 80 aext \<Longrightarrow> typed (snd (add_check E name aext detail now w))"
  by (auto simp: typed_db_def add_check_def Let_def check_typed_def)

lemma typed_add_asset:
  "typed w \<Longrightarrow> fits 80 ext \<Longrightarrow> fits 120 name \<Longrightarrow> fits 80 grp \<Longrightarrow> fits 80 status \<Longrightarrow>
   typed (snd (add_asset E ext name grp status w))"
  by (auto simp: typed_db_def add_asset_def Let_def asset_typed_def)

lemma typed_add_rule:
  "typed w \<Longrightarrow> fits 120 name \<Longrightarrow> fits 80 cat \<Longrightarrow> fits 80 ty \<Longrightarrow> 1 \<le> minsev \<Longrightarrow> minsev \<le> 100 \<Longrightarrow>
   0 \<le> cooldown \<Longrightarrow> cooldown \<le> 1440 \<Longrightarrow> typed (snd (add_rule E name cat minsev cooldown ty b w))"
  by (auto simp: typed_db_def add_rule_def Let_def rule_typed_def)

lemma typed_add_idem: "typed w \<Longrightarrow> fits 120 k \<Longrightarrow> typed (snd (add_idem E k w))"
  by (auto simp: typed_db_def add_idem_def Let_def idem_typed_def)

lemma typed_put_asset: "typed w \<Longrightarrow> asset_typed a \<Longrightarrow> typed (put_asset a w)"
  by (auto simp: typed_db_def dest!: in_put_rowD)

lemma typed_put_action: "typed w \<Longrightarrow> action_typed a \<Longrightarrow> typed (put_action a w)"
  by (auto simp: typed_db_def dest!: in_put_rowD)

lemma typed_put_idem: "typed w \<Longrightarrow> idem_typed r \<Longrightarrow> typed (put_idem r w)"
  by (auto simp: typed_db_def dest!: in_put_rowD)

lemma typed_put_check: "typed w \<Longrightarrow> check_typed c \<Longrightarrow> typed (put_check c w)"
  by (auto simp: typed_db_def dest!: in_put_rowD)

lemma typed_rows:
  assumes "typed_db d"
  shows "a \<in> set (assets d) \<Longrightarrow> asset_typed a" "r \<in> set (rules d) \<Longrightarrow> rule_typed r"
    "b \<in> set (actions d) \<Longrightarrow> action_typed b" "q \<in> set (idems d) \<Longrightarrow> idem_typed q"
    "c \<in> set (checks d) \<Longrightarrow> check_typed c"
  using assms by (auto simp: typed_db_def)

section \<open>Every operation keeps the types\<close>

lemma fits_append: "fits m s \<Longrightarrow> fits n t \<Longrightarrow> m + n \<le> k \<Longrightarrow> fits k (s @ t)"
  by (simp add: fits_def)

lemma typed_correlation:
  assumes "uuid_ok E" "valid_event_create p"
  shows "fits 80 (fst (correlation_id_or_new E p w))"
  using assms
  by (auto simp: correlation_id_or_new_def uuid4_hex_def uuid_ok_def valid_event_create_def fits_def len_between_def
      split: option.split)

lemma payload_fits:
  assumes "valid_event_create p"
  shows "fits 120 (ec_source p)" "fits 80 (ec_category p)" "1 \<le> ec_severity p" "ec_severity p \<le> 100"
    "ec_idempotency_key p = Some k \<Longrightarrow> fits 120 k"
  using assms by (auto simp: valid_event_create_def len_between_def fits_def)

lemma typed_record_event:
  assumes "uuid_ok E" "valid_event_create p" "typed w" "asset_typed a"
  shows "typed (snd (record_event E p a w))"
proof -
  have "asset_typed (a\<lparr>asset_status := ec_category p\<rparr>)"
    using assms(4) payload_fits(2) [OF assms(2)] by (simp add: asset_typed_def)
  then have "typed (put_asset (a\<lparr>asset_status := ec_category p\<rparr>) (snd (correlation_id_or_new E p w)))"
    using assms(3) by (intro typed_put_asset) simp_all
  then show ?thesis
    using payload_fits [OF assms(2)] typed_correlation [OF assms(1,2), of w]
    by (auto simp: record_event_def split_beta Let_def intro!: typed_add_event)
qed

lemma typed_open_incident:
  assumes "typed w" "rule_typed r" "asset_typed a" "fits 80 (event_category e)"
  shows "typed (snd (open_incident E p a r e w))"
proof -
  have "fits 292 (rule_name r @ '': '' @ asset_external_id a @ '' reported '' @ event_category e)"
    using assms(2-4) by (simp add: rule_typed_def asset_typed_def fits_def)
  then have "typed (snd (add_incident E aid rid eid (incident_state_value IncidentState_OPEN)
      (rule_name r @ '': '' @ asset_external_id a @ '' reported '' @ event_category e) w))" for aid rid eid
    using assms(1) by (intro typed_add_incident) simp_all
  moreover have "fits 80 (rule_action_type r)" using assms(2) by (simp add: rule_typed_def)
  ultimately show ?thesis
    by (auto simp: open_incident_def Let_def split_beta intro!: typed_add_audit typed_add_action)
qed

lemma typed_process_new:
  assumes "scans_ok E" "uuid_ok E" "valid_event_create p" "typed w"
  shows "typed (snd (process_new E p w))"
proof (cases "find_asset (ec_asset_external_id p) w")
  case None
  then show ?thesis using assms(4) by (simp add: process_new_unknown)
next
  case (Some a)
  then have a: "asset_typed a"
    using typed_rows(1) [OF assms(4)] by (auto simp: find_asset_def dest: find_row_SomeD)
  obtain e w1 where rec: "record_event E p a w = (e, w1)" by fastforce
  have w1: "typed w1" using typed_record_event [OF assms(2-4) a] rec by simp
  have cat: "fits 80 (event_category e)"
    using record_event_eqD(7) [OF rec] payload_fits(2) [OF assms(3)] by simp
  have "typed (snd (open_incident E p a r e (snd (in_cooldown E a m w1))))" if "match E e w1 = Some r" for r m
    using typed_rows(2) [OF w1 match_SomeD(1) [OF assms(1) that]] a cat w1 by (intro typed_open_incident) simp_all
  with Some rec w1 show ?thesis
    by (auto simp: process_new_def split_beta Let_def split: option.split intro!: typed_add_audit)
qed

lemma typed_replay:
  assumes "typed w" "r \<in> set (idems (db w))"
  shows "typed (snd (replay_idempotent_record E r w))"
proof -
  have "idem_typed (r\<lparr>idem_hits := h, idem_updated_at := t\<rparr>)" for h t
    using typed_rows(4) [OF assms] by (simp add: idem_typed_def)
  then have "typed (put_idem (r\<lparr>idem_hits := h, idem_updated_at := t\<rparr>) (snd (now_utc E w)))" for h t
    using assms(1) by (intro typed_put_idem) simp_all
  then show ?thesis
    by (auto simp: replay_idempotent_record_def Let_def split_beta split: option.split intro!: typed_add_audit)
qed

lemma typed_replay_found:
  "typed w \<Longrightarrow> find_idem k w = Some r \<Longrightarrow> typed (snd (replay_idempotent_record E r w))"
  using find_idemD [of k w r] by (intro typed_replay) simp_all

lemma typed_wait:
  assumes "alone E"
  shows "typed w \<Longrightarrow> typed (snd (wait_for_idempotent_result E k n w))"
proof (induction n arbitrary: w)
  case (Suc n)
  then show ?case
    using assms by (auto intro: typed_replay_found split: option.split)
qed simp

lemma process_new_skip_fits:
  "process_new E p w = (Inr (e, i, a, sk), w') \<Longrightarrow> pred_option (fits 80) sk"
proof -
  assume "process_new E p w = (Inr (e, i, a, sk), w')"
  from process_new_rows [OF this]
  have none: "sk \<notin> {Some ''no_matching_rule'', Some ''cooldown'', Some ''queue_backpressure''} \<longrightarrow> sk = None \<and> i \<noteq> None"
    by (elim conjE)
  show ?thesis
  proof (cases "sk \<in> {Some ''no_matching_rule'', Some ''cooldown'', Some ''queue_backpressure''}")
    case True
    then show ?thesis by (elim insertE) (simp_all add: fits_def)
  next
    case False
    with none have "sk = None" by (rule mp [THEN conjunct1])
    then show ?thesis by simp
  qed
qed

lemma typed_process_with_idempotency:
  assumes "scans_ok E" "uuid_ok E" "alone E" "valid_event_create p" "typed w" "typed_db (saved w)" "fits 120 k"
  shows "typed (snd (process_with_idempotency E k p w))"
proof (cases "\<exists>r \<in> set_option (find_idem k w). idem_event_id r \<noteq> None")
  case True
  then show ?thesis
    using assms(5) by (auto simp: process_with_idempotency_def intro: typed_replay_found)
next
  case False
  obtain x w1 where ins: "add_idem E k (peer_commit E w) = (x, w1)" by fastforce
  have w1: "typed w1" using typed_add_idem [of "peer_commit E w" k E] assms ins by simp
  show ?thesis
  proof (cases x)
    case (Inl e)
    have "saved w1 = saved w" using add_idem_frame [of E k "peer_commit E w"] ins assms(3) by simp
    then have "typed (rollback w1)" using assms(6) by simp
    then show ?thesis
      using False ins Inl typed_wait [OF assms(3)] by (simp add: process_with_idempotency_def)
  next
    case (Inr r)
    have r: "idem_typed r"
      using ins Inr assms(7) by (auto simp: add_idem_def Let_def idem_typed_def split: if_splits)
    let ?v = "release_savepoint (peer_commit E w) w1"
    obtain y w2 where new: "process_new E p ?v = (y, w2)" by fastforce
    have "typed ?v" using w1 by simp
    then have w2: "typed w2" using typed_process_new [OF assms(1,2,4), of ?v] new by simp
    show ?thesis
    proof (cases y)
      case (Inl e)
      then show ?thesis using False ins Inr new w2 by (simp add: process_with_idempotency_def)
    next
      case y: (Inr z)
      obtain e i a sk where z: "z = (e, i, a, sk)" by (cases z) auto
      have "idem_typed (r\<lparr>idem_event_id := x1, idem_incident_id := x2, idem_action_id := x3,
          idem_skipped_reason := sk, idem_updated_at := t\<rparr>)" for x1 x2 x3 t
        using r process_new_skip_fits [of E p ?v e i a sk w2] new y z by (simp add: idem_typed_def)
      then have "typed (put_idem (r\<lparr>idem_event_id := x1, idem_incident_id := x2, idem_action_id := x3,
          idem_skipped_reason := sk, idem_updated_at := t\<rparr>) (snd (now_utc E w2)))" for x1 x2 x3 t
        using w2 by (intro typed_put_idem) simp_all
      then show ?thesis
        using False ins Inr new y z by (simp add: process_with_idempotency_def split_beta Let_def)
    qed
  qed
qed

lemma typed_process:
  assumes "scans_ok E" "uuid_ok E" "alone E" "valid_event_create p" "typed w" "typed_db (saved w)"
  shows "typed (snd (process E p w))"
proof (cases "truthy (ec_idempotency_key p)")
  case True
  then obtain k where k: "ec_idempotency_key p = Some k" by (auto simp: truthy_def split: option.splits)
  with True typed_process_with_idempotency [OF assms payload_fits(5) [OF assms(4) k]]
  show ?thesis by (simp add: process_def)
next
  case False
  then have "snd (process E p w) = snd (process_new E p w)"
    by (simp add: process_def split_beta split: sum.split)
  then show ?thesis using typed_process_new [OF assms(1,2,4,5)] by simp
qed

lemma typed_seed:
  assumes "typed w" "typed_db (saved w)"
  shows "typed (snd (seed_demo_data E w))"
proof -
  have rows: "fits 80 ext \<and> fits 120 name \<and> fits 80 grp" if "(ext, name, grp) \<in> set demo_assets" for ext name grp
    using that by (auto simp: demo_assets_def)
  have rules: "fits 120 name \<and> fits 80 cat \<and> fits 80 ty \<and> 1 \<le> m \<and> m \<le> 100 \<and> 0 \<le> c \<and> c \<le> 1440"
    if "(name, cat, m, c, ty) \<in> set demo_rules" for name cat m c ty
    using that by (auto simp: demo_rules_def)
  have l1: "typed (snd (for_each (\<lambda>(ext, name, grp). add_asset E ext name grp ''unknown'') demo_assets w))"
    using assms(1) by (auto intro!: for_each_invariant [where P = typed] typed_add_asset dest: rows)
  have l2: "typed (snd (for_each (\<lambda>(name, cat, m, c, ty). add_rule E name cat m c ty True) demo_rules v))"
    if "typed v" for v :: world
    using that by (auto intro!: for_each_invariant [where P = typed] typed_add_rule dest: rules)
  have s1: "saved (snd (for_each (\<lambda>(ext, name, grp). add_asset E ext name grp ''unknown'') demo_assets w)) = saved w"
    and s2: "saved (snd (for_each (\<lambda>(name, cat, m, c, ty). add_rule E name cat m c ty True) demo_rules v)) = saved v" for v
    by (rule saved_for_each_seed)+
  show ?thesis
    using assms l1 l2 [OF l1] s1 s2 by (auto simp: seed_demo_data_def split_beta split: sum.split)
qed

lemma typed_once:
  assumes "typed w" "action_typed a"
  shows "typed (snd (execute_action_once E m ts d T now a w))"
proof -
  have "action_typed (a\<lparr>action_attempts := action_attempts a + 1\<rparr>)"
    using assms(2) by (simp add: action_typed_def)
  moreover from this have "action_typed (settle m d t out (a\<lparr>action_attempts := action_attempts a + 1\<rparr>))" for t out
    by (simp add: action_typed_def settle_state)
  moreover have "typed (put_action b (snd (now_or E now w)))" if "action_typed b" for b
    using assms(1) that by (intro typed_put_action) simp_all
  ultimately show ?thesis
    using assms(1)
    by (auto simp: execute_action_once_def Let_def split_beta split: sum.split intro!: typed_add_audit)
qed

lemma typed_process_due:
  assumes "scans_ok E" "uuid_ok E" "typed w"
  shows "typed (snd (process_due_actions E limit m ts d ls T now w))"
proof -
  let ?due = "due_actions E limit ls (fst (now_or E now w)) (snd (now_or E now w))"
    and ?l = "''lease_'' @ fst (uuid4_hex E (snd (now_or E now w)))"
    and ?w = "snd (uuid4_hex E (snd (now_or E now w)))"
  have l: "fits 80 ?l" using assms(2) by (simp add: uuid4_hex_def uuid_ok_def fits_def)
  have "typed (snd (for_each (lease_and_execute E m ts d T ?l t) ?due ?w))" for t
  proof (rule for_each_invariant)
    fix a and v :: world assume a: "a \<in> set ?due" and v: "typed v"
    have "a \<in> set (actions (db w))" using due_subset [OF assms(1) a] by simp
    then have "action_typed (lease ?l t a)"
      using typed_rows(3) [OF assms(3), of a] l by (simp add: action_typed_def lease_def)
    then show "typed (snd (lease_and_execute E m ts d T ?l t a v))"
      using v unfolding lease_and_execute_def Let_def by (intro typed_once typed_put_action)
  qed (use assms(3) in \<open>simp add: uuid4_hex_def\<close>)
  then show ?thesis by (simp add: process_due_actions_def split_beta Let_def split: sum.split)
qed

lemma typed_transition:
  assumes "typed w" "check_typed c"
  shows "typed (snd (transition_check E c g d ts now w))"
proof -
  have "typed (put_check (moved x d ts t c) (snd (now_or E now w)))"
    if "x \<in> (case allowed_transitions (check_state c) of Some s \<Rightarrow> s | None \<Rightarrow> {})" for x t
    using assms allowed_are_values [OF that] by (intro typed_put_check) (auto simp: check_typed_def)
  then show ?thesis
    using assms(1)
    by (auto simp: transition_check_def Let_def split_beta audit_check_def intro!: typed_add_audit)
qed

lemma typed_expire:
  assumes "scans_ok E" "typed w"
  shows "typed (snd (expire_waiting_checks E now w))"
proof -
  let ?w = "snd (now_or E now w)"
  have "typed (snd (for_each (\<lambda>c. transition_check E c g d ts n) (filter (overdue t) (scan_checks E (checks (db ?w)))) ?w))"
    for g d ts n t
  proof (rule for_each_invariant)
    fix c and v :: world assume "c \<in> set (filter (overdue t) (scan_checks E (checks (db ?w))))" "typed v"
    then show "typed (snd (transition_check E c g d ts n v))"
      using typed_rows(5) [OF assms(2), of c] by (intro typed_transition) (simp_all add: scan_sets [OF assms(1)])
  qed (use assms(2) in simp)
  then show ?thesis by (simp add: expire_waiting_checks_def split_beta Let_def split: sum.split)
qed

lemma typed_sweep: "typed w \<Longrightarrow> typed (snd (run_health_sweep E m w))"
proof -
  assume w: "typed w"
  have "typed (fold (add_follow_up E m) is v)" if "typed v" for "is" v
    using that by (induction "is" arbitrary: v) (simp_all add: add_follow_up_def typed_add_action)
  with w show ?thesis
    by (auto simp: run_health_sweep_def Let_def split_beta intro!: typed_add_job)
qed

section \<open>Every reachable row is typed\<close>

lemma typed_reset: "typed w \<Longrightarrow> typed (reset_workload w)"
  by (simp add: typed_db_def reset_workload_def)

lemma typed_endpoint:
  assumes "env_ok E" "uuid_ok E" "valid_request r" "typed v" "saved v = db v"
  shows "typed (snd (endpoint E r v))"
proof -
  note E = env_okD [OF assms(1)]
  have sv: "typed_db (saved v)" using assms(4,5) by simp
  have asset: "typed (snd (add_asset E (ac_external_id p) (ac_name p) (ac_group p) ''registered'' v))"
    if "valid_asset_create p" for p
    using assms(4) that by (intro typed_add_asset) (auto simp: valid_asset_create_def len_between_def fits_def)
  have rule: "typed (snd (add_rule E (rc_name p) (rc_category p) (rc_minimum_severity p) (rc_cooldown_minutes p)
      (rc_action_type p) (rc_enabled p) v))" if "valid_rule_create p" for p
    using assms(4) that by (intro typed_add_rule) (auto simp: valid_rule_create_def len_between_def fits_def)
  have check: "typed (snd (create_check E (cc_name p) (cc_asset_external_id p) (cc_detail p) None v))"
    if "valid_check_create p" for p
    using assms(4) that
    by (auto simp: create_check_def Let_def split_beta audit_check_def valid_check_create_def len_between_def fits_def
        intro!: typed_add_audit typed_add_check)
  have found: "typed (snd (transition_check E c g d ts None v))" if "get_check v k = Some c" for k c g d ts
    using assms(4) typed_rows(5) [OF assms(4)] that
    by (intro typed_transition) (auto simp: get_check_def dest: find_row_SomeD)
  show ?thesis
    using assms(3,4) typed_process [OF E(2) assms(2) E(4) _ assms(4) sv]
    by (cases r)
      (auto simp: endpoint_def snd_endpoints split_beta Let_def valid_request_def asset rule check found typed_reset
        typed_seed sv typed_process_due E(2) assms(2) typed_expire typed_sweep split: option.split if_splits)
qed

text \<open>
  C31. Every row of a reachable database is well typed: each state column holds the value of
  a member of its enumeration, severities, thresholds and cooldowns lie in the ranges of
  the schemas, attempt counters are not negative, and every string column respects its
  declared width, with two exceptions that are bounded as well: \<open>assets.status\<close>, declared
  with 40 characters, holds up to 80, and \<open>incidents.summary\<close>, declared with 200, up to 292.
\<close>

theorem columns_typed:
  assumes "env_ok E" "uuid_ok E" "reachable E w"
  shows "typed_db (db w)"
proof -
  have "typed_db empty_database" by (simp add: typed_db_def)
  then have "wf_db (saved w) \<and> typed_db (saved w) \<and> db w = saved w"
  proof (rule reachable_invariant [of E w typed_db, OF assms(1,3)])
    show "typed (snd (endpoint E r v))" if "valid_request r" "typed v" "saved v = db v" for r v
      using typed_endpoint [OF assms(1,2) that] .
    show "typed (snd (process_due_actions E limit m ts d ls default_transport now v))"
      if "typed v" for limit m ts d ls now v
      using typed_process_due [OF env_okD(2) [OF assms(1)] assms(2) that] .
    show "typed_db (with_record q d)" if "valid_event_create p" "typed_db d" "left_record E p q d" for p q d
    proof -
      have "idem_typed q"
        using payload_fits(5) [OF that(1)] that(3) by (auto simp: left_record_def bare_record_def idem_typed_def)
      then show ?thesis using that(2) by (auto simp: typed_db_def)
    qed
  qed
  then show ?thesis by simp
qed

text \<open>The demo environment with identifiers of the proper length.\<close>

definition hex_env :: env where
  "hex_env = demo_env\<lparr>uuid_hex := (\<lambda>_. replicate 32 CHR ''0'')\<rparr>"

lemma hex_env_ok: "env_ok hex_env" "uuid_ok hex_env"
proof -
  have "ids_ok hex_env" "scans_ok hex_env" "clock_ok hex_env" "alone hex_env"
    using demo_env_ok demo_alone by (simp_all add: hex_env_def ids_ok_def scans_ok_def alone_def clock_ok_def)
  then show "env_ok hex_env" by (simp add: env_ok_def)
  show "uuid_ok hex_env" by (simp add: uuid_ok_def hex_env_def)
qed

text \<open>The longest names a client may register, and an event on them.\<close>

definition long :: "nat \<Rightarrow> string" where
  "long n = replicate n CHR ''x''"

lemma length_long [simp]: "length (long n) = n"
  by (simp add: long_def)

definition long_requests :: "request list" where
  "long_requests =
     [PostAssets \<lparr>ac_external_id = long 80, ac_name = ''Asset'', ac_group = ''group''\<rparr>,
      PostRules \<lparr>rc_name = long 120, rc_category = long 80, rc_minimum_severity = 1, rc_cooldown_minutes = 0,
        rc_action_type = ''none'', rc_enabled = True\<rparr>,
      PostEvents \<lparr>ec_asset_external_id = long 80, ec_source = ''source'', ec_category = long 80, ec_severity = 1,
        ec_message = ''message'', ec_executor_mode = ''success'', ec_idempotency_key = None,
        ec_correlation_id = Some ''corr''\<rparr>]"

definition long_world :: world where
  "long_world = serve_all hex_env long_requests \<lparr>db = empty_database, saved = empty_database, reads = 0\<rparr>"

lemma reachable_long: "reachable hex_env long_world"
  unfolding long_world_def by (intro reachable_serve_all reachable.start)

lemma long_rows:
  "map asset_status (assets (db long_world)) = [long 80] \<and>
   map incident_summary (incidents (db long_world)) = [long 120 @ '': '' @ long 80 @ '' reported '' @ long 80]"
  by (simp add: long_world_def long_requests_def serve_all_def serve_def valid_request_def valid_event_create_def
      valid_asset_create_def valid_rule_create_def len_between_def get_session_def endpoint_def
      returning_def ingest_event_def create_asset_def create_rule_def hex_env_def
      processor_eval truthy_def open_session_def close_session_def rollback_def commit_def)

theorem columns_typed_witness:
  "typed_db (db long_world) \<and> length (assets (db long_world)) = 1 \<and> length (incidents (db long_world)) = 1"
proof -
  have "length (map asset_status (assets (db long_world))) = 1"
    "length (map incident_summary (incidents (db long_world))) = 1"
    by (simp_all add: long_rows)
  then show ?thesis using columns_typed [OF hex_env_ok reachable_long] by simp
qed

text \<open>
  C32. The two exceptions are real: valid requests lead to a database in which an asset's
  status is longer than its column and an incident's summary is longer than its column
  (and as long as the bounds of the typing allow), so on a database that enforces the
  declared widths the event is rejected with a server error.
\<close>

theorem widths_exceeded:
  "\<exists>w. reachable hex_env w \<and>
     (\<exists>a \<in> set (assets (db w)). length (asset_status a) = 80 \<and> \<not> fits 40 (asset_status a)) \<and>
     (\<exists>i \<in> set (incidents (db w)). length (incident_summary i) = 292 \<and> \<not> fits 200 (incident_summary i))"
proof -
  obtain a where "assets (db long_world) = [a]" "asset_status a = long 80"
    using long_rows by (auto simp: map_eq_Cons_conv)
  moreover obtain i where "incidents (db long_world) = [i]"
    "incident_summary i = long 120 @ '': '' @ long 80 @ '' reported '' @ long 80"
    using long_rows by (auto simp: map_eq_Cons_conv)
  ultimately show ?thesis
    using reachable_long by (intro exI [of _ long_world]) (simp add: fits_def)
qed

end
