(* ===== verification/Json.thy ===== *)
theory Json
  imports Prelude "HOL-Library.AList" "HOL-Library.Char_ord" "HOL-Library.List_Lexorder"
begin

text \<open>
  The part of Python's \<open>json\<close> module that the sources use: \<open>json.dumps\<close> (with
  \<open>ensure_ascii\<close>, its default, any pair of separators, and \<open>sort_keys\<close>) and \<open>json.loads\<close>.
  A string is a list of code points below 256. A floating point number is kept as its
  literal; no code here computes with one. Dictionaries are association lists in
  insertion order with distinct keys.
\<close>

section \<open>Values\<close>

datatype json =
    JNull
  | JBool bool
  | JInt int
  | JFloat string
  | JString string
  | JArray "json list"
  | JObject "(string \<times> json) list"

lemma size_member [termination_simp]:
  "x \<in> set xs \<Longrightarrow> size (snd x) < Suc (size_list (size_prod (\<lambda>_. 0) size) xs)"
  by (induction xs) (auto simp: less_Suc_eq_le)

lemma size_member' [termination_simp]:
  "(k, v) \<in> set xs \<Longrightarrow> size v < Suc (size_list (size_prod (\<lambda>_. 0) size) xs)"
  using size_member [of "(k, v)" xs] by simp

text \<open>Values without floats whose dictionaries have distinct keys.\<close>

fun plain :: "json \<Rightarrow> bool" where
  "plain (JFloat s) = False"
| "plain (JArray xs) = (\<forall>x \<in> set xs. plain x)"
| "plain (JObject kvs) = (distinct (map fst kvs) \<and> (\<forall>x \<in> set kvs. plain (snd x)))"
| "plain _ = True"

text \<open>A dictionary built by assigning its items in order.\<close>

definition dict_of :: "(string \<times> 'v) list \<Rightarrow> (string \<times> 'v) list" where
  "dict_of items = fold (\<lambda>(k, v). AList.update k v) items []"

lemma update_fresh: "k \<notin> fst ` set al \<Longrightarrow> AList.update k v al = al @ [(k, v)]"
  by (induction al) auto

lemma dict_of_acc:
  "distinct (map fst (acc @ items)) \<Longrightarrow> fold (\<lambda>(k, v). AList.update k v) items acc = acc @ items"
proof (induction items arbitrary: acc)
  case (Cons x items)
  then show ?case by (cases x) (simp add: update_fresh)
qed simp

lemma dict_of_distinct [simp]: "distinct (map fst items) \<Longrightarrow> dict_of items = items"
  using dict_of_acc [of "[]" items] by (simp add: dict_of_def)

section \<open>Writing\<close>

definition code :: "char \<Rightarrow> nat" where
  "code c = of_char c"

definition quote_char :: char where "quote_char = CHR 0x22"
definition backslash :: char where "backslash = CHR 0x5C"

definition hex_char :: "nat \<Rightarrow> char" where
  "hex_char d = (if d < 10 then char_of (48 + d) else char_of (87 + d))"

definition escape :: "char \<Rightarrow> string" where
  "escape c =
     (if c = quote_char then [backslash, quote_char]
      else if c = backslash then [backslash, backslash]
      else if code c = 10 then [backslash, CHR ''n'']
      else if code c = 13 then [backslash, CHR ''r'']
      else if code c = 9 then [backslash, CHR ''t'']
      else if code c = 8 then [backslash, CHR ''b'']
      else if code c = 12 then [backslash, CHR ''f'']
      else if 32 \<le> code c \<and> code c \<le> 126 then [c]
      else [backslash, CHR ''u'', CHR ''0'', CHR ''0'', hex_char (code c div 16), hex_char (code c mod 16)])"

definition quoted :: "string \<Rightarrow> string" where
  "quoted s = quote_char # concat (map escape s) @ [quote_char]"

fun join :: "string \<Rightarrow> string list \<Rightarrow> string" where
  "join sep [] = []"
| "join sep [x] = x"
| "join sep (x # y # zs) = x @ sep @ join sep (y # zs)"

fun dumps :: "string \<Rightarrow> string \<Rightarrow> json \<Rightarrow> string" where
  "dumps isep ksep JNull = ''null''"
| "dumps isep ksep (JBool b) = (if b then ''true'' else ''false'')"
| "dumps isep ksep (JInt i) = str_int i"
| "dumps isep ksep (JFloat s) = s"
| "dumps isep ksep (JString s) = quoted s"
| "dumps isep ksep (JArray xs) = ''['' @ join isep (map (dumps isep ksep) xs) @ '']''"
| "dumps isep ksep (JObject kvs) =
     ''{'' @ join isep (map (\<lambda>x. quoted (fst x) @ ksep @ dumps isep ksep (snd x)) kvs) @ ''}''"

text \<open>\<open>sort_keys=True\<close>: every dictionary in the order of its keys.\<close>

fun sort_keys :: "json \<Rightarrow> json" where
  "sort_keys (JArray xs) = JArray (map sort_keys xs)"
| "sort_keys (JObject kvs) = JObject (sort_key fst (map (\<lambda>x. (fst x, sort_keys (snd x))) kvs))"
| "sort_keys v = v"

section \<open>Reading\<close>

definition is_ws :: "char \<Rightarrow> bool" where
  "is_ws c \<longleftrightarrow> code c \<in> {32, 9, 10, 13}"

definition skip_ws :: "string \<Rightarrow> string" where
  "skip_ws s = dropWhile is_ws s"

definition is_digit :: "char \<Rightarrow> bool" where
  "is_digit c \<longleftrightarrow> 48 \<le> code c \<and> code c \<le> 57"

definition digits_value :: "string \<Rightarrow> nat" where
  "digits_value s = foldl (\<lambda>n c. 10 * n + (code c - 48)) 0 s"

definition hex_value :: "char \<Rightarrow> nat option" where
  "hex_value c =
     (if is_digit c then Some (code c - 48)
      else if 97 \<le> code c \<and> code c \<le> 102 then Some (code c - 87)
      else if 65 \<le> code c \<and> code c \<le> 70 then Some (code c - 55)
      else None)"

definition hex4 :: "string \<Rightarrow> nat option" where
  "hex4 s =
     (case those (map hex_value (take 4 s)) of
        None \<Rightarrow> None
      | Some ds \<Rightarrow> if length ds = 4 then Some (foldl (\<lambda>n d. 16 * n + d) 0 ds) else None)"

definition unescape :: "char \<Rightarrow> char option" where
  "unescape c =
     map_of [(quote_char, quote_char), (backslash, backslash), (CHR ''/'', CHR ''/''),
       (CHR ''n'', char_of (10 :: nat)), (CHR ''r'', char_of (13 :: nat)), (CHR ''t'', char_of (9 :: nat)),
       (CHR ''b'', char_of (8 :: nat)), (CHR ''f'', char_of (12 :: nat))] c"

text \<open>The rest of a string literal after its opening quote, and what follows it.\<close>

definition onto :: "'a \<Rightarrow> ('a list \<times> 'b) option \<Rightarrow> ('a list \<times> 'b) option" where
  "onto x r = map_option (\<lambda>(xs, rest). (x # xs, rest)) r"

lemma onto_simps [simp]: "onto x None = None" "onto x (Some (xs, rest)) = Some (x # xs, rest)"
  by (simp_all add: onto_def)

fun parse_string :: "string \<Rightarrow> (string \<times> string) option" where
  "parse_string [] = None"
| "parse_string (c # r) =
     (if c = quote_char then Some ([], r)
      else if c = backslash then
        (if r = [] then None
         else if hd r = CHR ''u'' then
           (case hex4 (tl r) of
              None \<Rightarrow> None
            | Some n \<Rightarrow> if n < 256 then onto (char_of n) (parse_string (drop 4 (tl r))) else None)
         else (case unescape (hd r) of
              None \<Rightarrow> None
            | Some d \<Rightarrow> onto d (parse_string (tl r))))
      else if code c < 32 then None
      else onto c (parse_string r))"

declare parse_string.simps [simp del]

text \<open>Optional parts of a number literal: a fraction, an exponent.\<close>

definition fraction :: "string \<Rightarrow> string" where
  "fraction s =
     (if s \<noteq> [] \<and> hd s = CHR ''.'' \<and> takeWhile is_digit (tl s) \<noteq> []
      then CHR ''.'' # takeWhile is_digit (tl s) else [])"

definition exponent :: "string \<Rightarrow> string" where
  "exponent s =
     (if s \<noteq> [] \<and> hd s \<in> {CHR ''e'', CHR ''E''} then
        (let r = tl s;
             sign = (if r \<noteq> [] \<and> hd r \<in> {CHR ''+'', CHR ''-''} then [hd r] else []);
             ds = takeWhile is_digit (drop (length sign) r)
         in if ds = [] then [] else hd s # sign @ ds)
      else [])"

definition parse_natural :: "string \<Rightarrow> string \<Rightarrow> (json \<times> string) option" where
  "parse_natural sign s =
     (let ds = takeWhile is_digit s;
          ip = (if ds \<noteq> [] \<and> hd ds = CHR ''0'' then ''0'' else ds);
          r = drop (length ip) s; f = fraction r; e = exponent (drop (length f) r)
      in if ds = [] then None
         else if f = [] \<and> e = []
         then Some (JInt (if sign = [] then int (digits_value ip) else - int (digits_value ip)), r)
         else Some (JFloat (sign @ ip @ f @ e), drop (length f + length e) r))"

definition parse_atom :: "string \<Rightarrow> (json \<times> string) option" where
  "parse_atom s =
     (if take 4 s = ''null'' then Some (JNull, drop 4 s)
      else if take 4 s = ''true'' then Some (JBool True, drop 4 s)
      else if take 5 s = ''false'' then Some (JBool False, drop 5 s)
      else if take 3 s = ''NaN'' then Some (JFloat ''NaN'', drop 3 s)
      else if take 8 s = ''Infinity'' then Some (JFloat ''Infinity'', drop 8 s)
      else if take 9 s = ''-Infinity'' then Some (JFloat ''-Infinity'', drop 9 s)
      else if s \<noteq> [] \<and> hd s = CHR ''-'' then parse_natural ''-'' (tl s)
      else parse_natural [] s)"

definition starts :: "char \<Rightarrow> string \<Rightarrow> bool" where
  "starts c s \<longleftrightarrow> s \<noteq> [] \<and> hd s = c"

lemma starts_simps [simp]: "starts c [] = False" "starts c (d # s) = (d = c)"
  by (auto simp: starts_def)

text \<open>
  The recursive descent. The first argument bounds the depth of the calls; twice the
  length of the text is enough, since every two nested calls consume a character.
\<close>

fun parse_value :: "nat \<Rightarrow> string \<Rightarrow> (json \<times> string) option"
  and parse_elements :: "nat \<Rightarrow> string \<Rightarrow> (json list \<times> string) option"
  and parse_members :: "nat \<Rightarrow> string \<Rightarrow> ((string \<times> json) list \<times> string) option" where
  "parse_value 0 s = None"
| "parse_value (Suc n) s =
     (let t = skip_ws s
      in if starts quote_char t then map_option (\<lambda>(x, r). (JString x, r)) (parse_string (tl t))
         else if starts (CHR ''['') t then
           (if starts (CHR '']'') (skip_ws (tl t)) then Some (JArray [], tl (skip_ws (tl t)))
            else map_option (\<lambda>(xs, r). (JArray xs, r)) (parse_elements n (tl t)))
         else if starts (CHR ''{'') t then
           (if starts (CHR ''}'') (skip_ws (tl t)) then Some (JObject [], tl (skip_ws (tl t)))
            else map_option (\<lambda>(kvs, r). (JObject (dict_of kvs), r)) (parse_members n (tl t)))
         else parse_atom t)"
| "parse_elements 0 s = None"
| "parse_elements (Suc n) s =
     (case parse_value n s of
        None \<Rightarrow> None
      | Some (v, r) \<Rightarrow>
          let t = skip_ws r
          in if starts (CHR '','') t then onto v (parse_elements n (tl t))
             else if starts (CHR '']'') t then Some ([v], tl t)
             else None)"
| "parse_members 0 s = None"
| "parse_members (Suc n) s =
     (let t = skip_ws s
      in if \<not> starts quote_char t then None
         else case parse_string (tl t) of
             None \<Rightarrow> None
           | Some (k, r1) \<Rightarrow>
               let t1 = skip_ws r1
               in if \<not> starts (CHR '':'') t1 then None
                  else case parse_value n (tl t1) of
                      None \<Rightarrow> None
                    | Some (v, r2) \<Rightarrow>
                        let t2 = skip_ws r2
                        in if starts (CHR '','') t2 then onto (k, v) (parse_members n (tl t2))
                           else if starts (CHR ''}'') t2 then Some ([(k, v)], tl t2)
                           else None)"

definition loads :: "string \<Rightarrow> exn + json" where
  "loads s =
     (case parse_value (2 * length s + 2) s of
        Some (v, r) \<Rightarrow> if skip_ws r = [] then Inr v else Inl (ValueError ''JSONDecodeError'')
      | None \<Rightarrow> Inl (ValueError ''JSONDecodeError''))"

section \<open>Strings read back\<close>

lemma code_char_of [simp]: "n < 256 \<Longrightarrow> code (char_of n) = n"
  by (simp add: code_def)

lemma char_of_code [simp]: "char_of (code c) = c"
  by (simp add: code_def)

lemma code_less [simp]: "code c < 256"
  by (simp add: code_def)

lemma code_inj: "code c = code d \<longleftrightarrow> c = d"
  by (metis char_of_code)

lemma char_code: "code c = n \<Longrightarrow> c = char_of n"
  by (metis char_of_code)

lemma special_codes [simp]: "code quote_char = 34" "code backslash = 92"
  by (simp_all add: code_def quote_char_def backslash_def)

lemma hex_value_char: "d < 16 \<Longrightarrow> hex_value (hex_char d) = Some d"
  by (cases "d < 10") (simp_all add: hex_value_def hex_char_def is_digit_def)

lemma hex4_code:
  "hex4 (CHR ''0'' # CHR ''0'' # hex_char (code c div 16) # hex_char (code c mod 16) # rest) = Some (code c)"
proof -
  have "code c div 16 < 16" using less_mult_imp_div_less [of "code c" 16 16] by simp
  moreover have "hex_value (CHR ''0'') = Some 0" by (simp add: hex_value_def is_digit_def code_def)
  ultimately show ?thesis by (simp add: hex4_def hex_value_char)
qed

lemma parse_plain:
  "c \<noteq> quote_char \<Longrightarrow> c \<noteq> backslash \<Longrightarrow> 32 \<le> code c \<Longrightarrow>
   parse_string (c # rest) = onto c (parse_string rest)"
  by (simp add: parse_string.simps)

lemma parse_quote [simp]: "parse_string (quote_char # rest) = Some ([], rest)"
  by (simp add: parse_string.simps)

lemma quote_not_backslash [simp]: "backslash \<noteq> quote_char" "quote_char \<noteq> backslash"
  by (simp_all add: code_inj [symmetric])

lemma parse_simple_escape:
  "unescape e = Some d \<Longrightarrow> e \<noteq> CHR ''u'' \<Longrightarrow>
   parse_string (backslash # e # rest) = onto d (parse_string rest)"
  by (simp add: parse_string.simps)

lemma parse_unicode_escape:
  "parse_string (backslash # CHR ''u'' # CHR ''0'' # CHR ''0'' # hex_char (code c div 16) #
     hex_char (code c mod 16) # rest) = onto c (parse_string rest)"
  by (subst parse_string.simps) (simp add: hex4_code)

lemma unescape_simps:
  "unescape quote_char = Some quote_char" "unescape backslash = Some backslash"
  "unescape CHR ''n'' = Some (char_of (10 :: nat))" "unescape CHR ''r'' = Some (char_of (13 :: nat))"
  "unescape CHR ''t'' = Some (char_of (9 :: nat))" "unescape CHR ''b'' = Some (char_of (8 :: nat))"
  "unescape CHR ''f'' = Some (char_of (12 :: nat))"
  by (simp_all add: unescape_def quote_char_def backslash_def)

lemma special_not_u: "quote_char \<noteq> CHR ''u''" "backslash \<noteq> CHR ''u''"
  by (simp_all add: quote_char_def backslash_def)

lemma parse_escape: "parse_string (escape c @ rest) = onto c (parse_string rest)"
proof -
  have "parse_string (escape c @ rest) = onto c (parse_string rest)" if "code c = n" "n \<in> {10, 13, 9, 8, 12}" for n
    using that char_code [OF that(1)]
    by (auto simp: escape_def unescape_simps code_inj [symmetric] intro!: parse_simple_escape)
  then show ?thesis
    by (cases "code c \<in> {10, 13, 9, 8, 12}")
      (auto simp: escape_def unescape_simps special_not_u parse_unicode_escape parse_plain parse_simple_escape)
qed

lemma parse_escaped: "parse_string (concat (map escape s) @ quote_char # rest) = Some (s, rest)"
  by (induction s) (simp_all add: parse_escape)

section \<open>Numbers read back\<close>

lemma code_digit: "d < 10 \<Longrightarrow> code (digit_char d) = 48 + d"
  by (simp add: digit_char_def)

lemma str_nat_digits: "\<forall>c \<in> set (str_nat n). is_digit c"
proof (induction n rule: str_nat.induct)
  case (1 n)
  then show ?case
    by (subst str_nat.simps) (auto simp: is_digit_def code_digit)
qed

lemma digits_value_snoc: "digits_value (s @ [c]) = 10 * digits_value s + (code c - 48)"
  by (simp add: digits_value_def)

lemma digits_value_str_nat [simp]: "digits_value (str_nat n) = n"
proof (induction n rule: str_nat.induct)
  case (1 n)
  show ?case
  proof (cases "n < 10")
    case True
    then show ?thesis by (subst str_nat.simps) (simp add: digits_value_def code_digit)
  next
    case False
    with 1 have "digits_value (str_nat (n div 10) @ [digit_char (n mod 10)]) = 10 * (n div 10) + n mod 10"
      by (simp add: digits_value_snoc code_digit)
    with False show ?thesis by (subst str_nat.simps) simp
  qed
qed

lemma str_nat_leading_zero: "hd (str_nat n) = CHR ''0'' \<Longrightarrow> str_nat n = ''0''"
proof (induction n rule: str_nat.induct)
  case (1 n)
  show ?case
  proof (cases "n < 10")
    case True
    then show ?thesis using "1.prems" by (simp add: str_nat.simps [of n])
  next
    case False
    then have "hd (str_nat (n div 10)) = CHR ''0''" using "1.prems" by (simp add: str_nat.simps [of n])
    with "1.IH" False have "str_nat (n div 10) = ''0''" by simp
    then have "digits_value (str_nat (n div 10)) = 0" by (simp add: digits_value_def code_def)
    with False show ?thesis by simp
  qed
qed

text \<open>What may follow a number: nothing, or a separator.\<close>

definition delimited :: "string \<Rightarrow> bool" where
  "delimited s \<longleftrightarrow> s = [] \<or> code (hd s) \<in> {10, 32, 44, 93, 125}"

lemma delimited_facts:
  assumes "delimited s"
  shows "takeWhile is_digit s = []" "fraction s = []" "exponent s = []"
  using assms by (cases s; auto simp: delimited_def is_digit_def fraction_def exponent_def code_def)+

lemma parse_natural_str_nat:
  assumes "delimited rest"
  shows "parse_natural sign (str_nat n @ rest) = Some (JInt (if sign = [] then int n else - int n), rest)"
proof -
  have ds: "takeWhile is_digit (str_nat n @ rest) = str_nat n"
    using str_nat_digits [of n] delimited_facts(1) [OF assms] by (simp add: takeWhile_append2)
  have ip: "(if str_nat n \<noteq> [] \<and> hd (str_nat n) = CHR ''0'' then ''0'' else str_nat n) = str_nat n"
    using str_nat_leading_zero [of n] by auto
  show ?thesis
    by (simp only: parse_natural_def ds ip Let_def) (simp add: delimited_facts(2,3) [OF assms])
qed

lemma str_nat_Cons: obtains c cs where "str_nat n = c # cs" "is_digit c"
  using str_nat_digits [of n] str_nat_nonempty [of n] by (metis list.exhaust list.set_intros(1))

lemma is_digit_not: "is_digit c \<Longrightarrow> c \<noteq> CHR ''n'' \<and> c \<noteq> CHR ''t'' \<and> c \<noteq> CHR ''f'' \<and> c \<noteq> CHR ''N'' \<and>
    c \<noteq> CHR ''I'' \<and> c \<noteq> CHR ''-'' \<and> c \<noteq> CHR ''['' \<and> c \<noteq> CHR ''{'' \<and> c \<noteq> quote_char \<and> c \<noteq> CHR '']'' \<and> c \<noteq> CHR ''}'' \<and> \<not> is_ws c"
  by (auto simp: is_digit_def is_ws_def code_def quote_char_def)

lemma parse_atom_int:
  assumes "delimited rest"
  shows "parse_atom (str_int i @ rest) = Some (JInt i, rest)"
proof (cases "i < 0")
  case True
  obtain c cs where c: "str_nat (nat (- i)) = c # cs" "is_digit c" by (rule str_nat_Cons)
  with is_digit_not [of c] parse_natural_str_nat [OF assms, of "''-''" "nat (- i)"] True show ?thesis
    by (simp add: parse_atom_def str_int_def numeral_nat)
next
  case False
  obtain c cs where c: "str_nat (nat i) = c # cs" "is_digit c" by (rule str_nat_Cons)
  with is_digit_not [of c] parse_natural_str_nat [OF assms, of "[]" "nat i"] False show ?thesis
    by (simp add: parse_atom_def str_int_def numeral_nat)
qed

section \<open>Texts read back\<close>

text \<open>The separators in use: the default ones and the compact ones.\<close>

definition separators :: "string \<Rightarrow> string \<Rightarrow> bool" where
  "separators isep ksep \<longleftrightarrow> isep \<in> {'','', '', ''} \<and> ksep \<in> {'':'', '': ''}"

lemma separatorsE:
  assumes "separators isep ksep"
  obtains sp kp where "isep = CHR '','' # sp" "ksep = CHR '':'' # kp" "\<forall>c \<in> set sp. is_ws c" "\<forall>c \<in> set kp. is_ws c"
  using assms by (auto simp: separators_def is_ws_def code_def)

lemma skip_ws_append: "\<forall>c \<in> set sp. is_ws c \<Longrightarrow> skip_ws (sp @ s) = skip_ws s"
  by (simp add: skip_ws_def)

lemma skip_ws_Cons [simp]: "\<not> is_ws c \<Longrightarrow> skip_ws (c # s) = c # s"
  by (simp add: skip_ws_def)

lemma parse_value_ws: "\<forall>c \<in> set sp. is_ws c \<Longrightarrow> parse_value n (sp @ s) = parse_value n s"
  by (cases n) (simp_all add: skip_ws_append)

lemma parse_elements_ws: "\<forall>c \<in> set sp. is_ws c \<Longrightarrow> parse_elements n (sp @ s) = parse_elements n s"
  by (cases n) (simp_all add: parse_value_ws)

lemma parse_members_ws: "\<forall>c \<in> set sp. is_ws c \<Longrightarrow> parse_members n (sp @ s) = parse_members n s"
  by (cases n) (simp_all add: skip_ws_append)

lemma not_ws [simp]:
  "\<not> is_ws quote_char" "\<not> is_ws CHR ''[''" "\<not> is_ws CHR '']''" "\<not> is_ws CHR ''{''" "\<not> is_ws CHR ''}''"
  "\<not> is_ws CHR '',''" "\<not> is_ws CHR '':''" "\<not> is_ws CHR ''n''" "\<not> is_ws CHR ''t''" "\<not> is_ws CHR ''f''" "\<not> is_ws CHR ''-''"
  by (simp_all add: is_ws_def code_def quote_char_def)

lemma quote_not [simp]:
  "quote_char \<noteq> CHR ''[''" "quote_char \<noteq> CHR '']''" "quote_char \<noteq> CHR ''{''" "quote_char \<noteq> CHR ''}''"
  "CHR ''['' \<noteq> quote_char" "CHR ''{'' \<noteq> quote_char" "CHR ''n'' \<noteq> quote_char" "CHR ''t'' \<noteq> quote_char"
  "CHR ''f'' \<noteq> quote_char" "CHR ''-'' \<noteq> quote_char" "quote_char \<noteq> CHR ''-''"
  by (simp_all add: quote_char_def)

lemma str_int_head:
  obtains c cs where "str_int i = c # cs" "c = CHR ''-'' \<or> is_digit c"
proof (cases "i < 0")
  case True
  with that show ?thesis by (simp add: str_int_def)
next
  case False
  obtain c cs where "str_nat (nat i) = c # cs" "is_digit c" by (rule str_nat_Cons)
  with False that show ?thesis by (simp add: str_int_def)
qed

text \<open>How the text of a value begins: never with white space or a closing bracket.\<close>

lemma dumps_head:
  assumes "plain v"
  obtains c cs where "dumps isep ksep v = c # cs" "\<not> is_ws c" "c \<noteq> CHR '']''" "c \<noteq> CHR ''}''"
proof (cases v)
  case (JInt i)
  obtain c cs where "str_int i = c # cs" "c = CHR ''-'' \<or> is_digit c" by (rule str_int_head)
  with JInt that is_digit_not show ?thesis by fastforce
next
  case (JBool b)
  with that show ?thesis by (cases b) simp_all
qed (use that assms in \<open>auto simp: quoted_def\<close>)

lemma parse_value_atom:
  assumes "\<not> is_ws c" "c \<noteq> quote_char" "c \<noteq> CHR ''[''" "c \<noteq> CHR ''{''" "0 < n"
  shows "parse_value n (c # s) = parse_atom (c # s)"
  using assms by (cases n) simp_all

lemma parse_value_string: "0 < n \<Longrightarrow> parse_value n (quoted s @ rest) = Some (JString s, rest)"
  by (cases n) (simp_all add: quoted_def parse_escaped)

lemma parse_value_int:
  assumes "delimited rest" "0 < n"
  shows "parse_value n (str_int i @ rest) = Some (JInt i, rest)"
proof -
  obtain c cs where c: "str_int i = c # cs" "c = CHR ''-'' \<or> is_digit c" by (rule str_int_head)
  then have "\<not> is_ws c" "c \<noteq> quote_char" "c \<noteq> CHR ''[''" "c \<noteq> CHR ''{''"
    using is_digit_not [of c] by auto
  from parse_value_atom [OF this assms(2), of "cs @ rest"] parse_atom_int [OF assms(1), of i] c
  show ?thesis by simp
qed

definition reads_back :: "string \<Rightarrow> string \<Rightarrow> json \<Rightarrow> bool" where
  "reads_back isep ksep v \<longleftrightarrow>
     (\<forall>n rest. delimited rest \<longrightarrow> 2 * length (dumps isep ksep v) \<le> n \<longrightarrow>
        parse_value n (dumps isep ksep v @ rest) = Some (v, rest))"

lemma reads_backD:
  "reads_back isep ksep v \<Longrightarrow> delimited rest \<Longrightarrow> 2 * length (dumps isep ksep v) \<le> n \<Longrightarrow>
   parse_value n (dumps isep ksep v @ rest) = Some (v, rest)"
  by (simp add: reads_back_def)

lemma delimited_sep [simp]:
  "delimited (CHR '','' # s)" "delimited (CHR '']'' # s)" "delimited (CHR ''}'' # s)" "delimited []"
  by (simp_all add: delimited_def code_def)

lemma elements_read_back:
  assumes sep: "isep = CHR '','' # sp" "\<forall>c \<in> set sp. is_ws c"
  shows "xs \<noteq> [] \<Longrightarrow> \<forall>x \<in> set xs. reads_back isep ksep x \<Longrightarrow>
    2 * length (join isep (map (dumps isep ksep) xs)) + 1 \<le> n \<Longrightarrow>
    parse_elements n (join isep (map (dumps isep ksep) xs) @ CHR '']'' # rest) = Some (xs, rest)"
proof (induction xs arbitrary: n)
  case Nil
  then show ?case by simp
next
  case (Cons x xs)
  obtain m where n: "n = Suc m" using Cons.prems(3) by (cases n) auto
  have x: "reads_back isep ksep x" using Cons.prems(2) by simp
  show ?case
  proof (cases xs)
    case Nil
    with n reads_backD [OF x, of "CHR '']'' # rest" m] Cons.prems(3) show ?thesis by simp
  next
    case (Cons y ys)
    let ?more = "join isep (map (dumps isep ksep) xs) @ CHR '']'' # rest"
    have "parse_value m (dumps isep ksep x @ isep @ ?more) = Some (x, isep @ ?more)"
      using Cons.prems(3) n Cons sep by (intro reads_backD [OF x]) simp_all
    moreover have "parse_elements m ?more = Some (xs, rest)"
      using Cons.prems n Cons sep(1) by (intro Cons.IH) auto
    ultimately show ?thesis
      using n Cons sep by (simp add: parse_elements_ws)
  qed
qed

definition member_text :: "string \<Rightarrow> string \<Rightarrow> string \<times> json \<Rightarrow> string" where
  "member_text isep ksep x = quoted (fst x) @ ksep @ dumps isep ksep (snd x)"

lemma members_read_back:
  assumes sep: "isep = CHR '','' # sp" "\<forall>c \<in> set sp. is_ws c" "ksep = CHR '':'' # kp" "\<forall>c \<in> set kp. is_ws c"
  shows "kvs \<noteq> [] \<Longrightarrow> \<forall>x \<in> set kvs. reads_back isep ksep (snd x) \<Longrightarrow>
    2 * length (join isep (map (member_text isep ksep) kvs)) + 1 \<le> n \<Longrightarrow>
    parse_members n (join isep (map (member_text isep ksep) kvs) @ CHR ''}'' # rest) = Some (kvs, rest)"
proof (induction kvs arbitrary: n)
  case Nil
  then show ?case by simp
next
  case (Cons x kvs)
  obtain m where n: "n = Suc m" using Cons.prems(3) by (cases n) auto
  obtain k v where x: "x = (k, v)" by (cases x) auto
  have v: "reads_back isep ksep v" using Cons.prems(2) x by simp
  have first: "parse_members n (member_text isep ksep x @ s) =
      (let t2 = skip_ws s
       in if starts (CHR '','') t2 then onto (k, v) (parse_members m (tl t2))
          else if starts (CHR ''}'') t2 then Some ([(k, v)], tl t2) else None)"
    if "delimited s" "2 * length (dumps isep ksep v) \<le> m" for s
    using n x sep(3,4) reads_backD [OF v that]
    by (simp add: member_text_def quoted_def parse_escaped parse_value_ws Let_def)
  show ?case
  proof (cases kvs)
    case Nil
    have "2 * length (dumps isep ksep v) \<le> m"
      using Cons.prems(3) n x Nil by (simp add: member_text_def)
    with first [of "CHR ''}'' # rest"] x Nil show ?thesis by simp
  next
    case (Cons y ys)
    let ?more = "join isep (map (member_text isep ksep) kvs) @ CHR ''}'' # rest"
    have "2 * length (dumps isep ksep v) \<le> m"
      using Cons.prems(3) n x Cons by (simp add: member_text_def)
    with first [of "isep @ ?more"] sep
    have "parse_members n (member_text isep ksep x @ isep @ ?more) = onto (k, v) (parse_members m ?more)"
      by (simp add: parse_members_ws)
    moreover have "parse_members m ?more = Some (kvs, rest)"
      using Cons.prems n Cons sep(1) by (intro Cons.IH) auto
    ultimately show ?thesis
      using x Cons by simp
  qed
qed

lemma dumps_object:
  "dumps isep ksep (JObject kvs) = ''{'' @ join isep (map (member_text isep ksep) kvs) @ ''}''"
  by (simp add: member_text_def [abs_def])

lemma join_head:
  assumes "xs \<noteq> []" "hd xs = c # cs"
  obtains ds where "join sep xs = c # ds"
  using assms by (cases xs; cases "tl xs") auto

lemma brackets_read_back:
  assumes "reads_text = join isep (map (dumps isep ksep) xs)" "xs \<noteq> []" "\<forall>x \<in> set xs. plain x"
  obtains c cs where "reads_text = c # cs" "\<not> is_ws c" "c \<noteq> CHR '']''"
proof -
  obtain x ys where xs: "xs = x # ys" using assms(2) by (cases xs) auto
  then obtain c cs where c: "dumps isep ksep x = c # cs" "\<not> is_ws c" "c \<noteq> CHR '']''"
    using assms(3) by (auto elim!: dumps_head [of x isep ksep])
  then show ?thesis
    using that assms(1) xs join_head [of "map (dumps isep ksep) xs" c cs isep] by (metis list.map_disc_iff list.sel(1) list.simps(9) assms(2))
qed

lemma array_reads_back:
  assumes "separators isep ksep" "\<forall>x \<in> set xs. plain x \<and> reads_back isep ksep x"
  shows "reads_back isep ksep (JArray xs)"
  unfolding reads_back_def
proof (intro allI impI)
  fix n rest assume n: "2 * length (dumps isep ksep (JArray xs)) \<le> n"
  then obtain m where m: "n = Suc m" by (cases n) auto
  obtain sp where sp: "isep = CHR '','' # sp" "\<forall>c \<in> set sp. is_ws c" using assms(1) by (rule separatorsE)
  let ?J = "join isep (map (dumps isep ksep) xs)"
  show "parse_value n (dumps isep ksep (JArray xs) @ rest) = Some (JArray xs, rest)"
  proof (cases "xs = []")
    case True
    then show ?thesis using m by simp
  next
    case False
    obtain c cs where J: "?J = c # cs" "\<not> is_ws c" "c \<noteq> CHR '']''"
      using False assms(2) by (auto elim!: brackets_read_back [OF refl, of xs isep ksep])
    have "parse_elements m (?J @ CHR '']'' # rest) = Some (xs, rest)"
      using elements_read_back [OF sp False, of ksep m rest] assms(2) n m by simp
    then show ?thesis using m J by simp
  qed
qed

lemma object_reads_back:
  assumes "separators isep ksep" "distinct (map fst kvs)" "\<forall>x \<in> set kvs. reads_back isep ksep (snd x)"
  shows "reads_back isep ksep (JObject kvs)"
  unfolding reads_back_def
proof (intro allI impI)
  fix n rest assume n: "2 * length (dumps isep ksep (JObject kvs)) \<le> n"
  then obtain m where m: "n = Suc m" by (cases n) auto
  obtain sp kp where sp: "isep = CHR '','' # sp" "\<forall>c \<in> set sp. is_ws c"
      "ksep = CHR '':'' # kp" "\<forall>c \<in> set kp. is_ws c"
    using assms(1) by (rule separatorsE)
  let ?J = "join isep (map (member_text isep ksep) kvs)"
  show "parse_value n (dumps isep ksep (JObject kvs) @ rest) = Some (JObject kvs, rest)"
  proof (cases "kvs = []")
    case True
    then show ?thesis using m by simp
  next
    case False
    then have "hd (map (member_text isep ksep) kvs) = quote_char # tl (hd (map (member_text isep ksep) kvs))"
      by (cases kvs) (simp_all add: member_text_def quoted_def)
    with False obtain cs where J: "?J = quote_char # cs"
      using join_head [of "map (member_text isep ksep) kvs"] by (metis map_is_Nil_conv)
    have "parse_members m (?J @ CHR ''}'' # rest) = Some (kvs, rest)"
      using members_read_back [OF sp False, of m rest] assms(3) n m unfolding dumps_object by simp
    then show ?thesis using m J assms(2) unfolding dumps_object by simp
  qed
qed

lemma reads_back_plain:
  assumes "separators isep ksep"
  shows "plain v \<Longrightarrow> reads_back isep ksep v"
proof (induction v)
  case JNull
  show ?case
    by (auto simp: reads_back_def parse_value_atom parse_atom_def)
next
  case (JBool b)
  show ?case
    by (cases b) (auto simp: reads_back_def parse_value_atom parse_atom_def)
next
  case (JInt i)
  show ?case
    unfolding reads_back_def
  proof (intro allI impI)
    fix n rest assume rest: "delimited rest" and n: "2 * length (dumps isep ksep (JInt i)) \<le> n"
    have "str_int i \<noteq> []" by (rule str_int_head [of i]) simp
    with n have "0 < n" by (cases n) auto
    with rest show "parse_value n (dumps isep ksep (JInt i) @ rest) = Some (JInt i, rest)"
      by (simp add: parse_value_int)
  qed
next
  case (JString s)
  show ?case
    unfolding reads_back_def
  proof (intro allI impI)
    fix n rest assume "2 * length (dumps isep ksep (JString s)) \<le> n"
    then have "0 < n" by (simp add: quoted_def)
    then show "parse_value n (dumps isep ksep (JString s) @ rest) = Some (JString s, rest)"
      by (simp add: parse_value_string)
  qed
next
  case (JArray xs)
  then show ?case by (intro array_reads_back [OF assms]) auto
next
  case (JObject kvs)
  then show ?case by (intro object_reads_back [OF assms]) (auto simp: snds.simps)
qed simp

text \<open>What \<open>json.dumps\<close> wrote, followed by white space, \<open>json.loads\<close> reads back.\<close>

lemma loads_dumps:
  assumes "separators isep ksep" "plain v" "end \<in> {[], [char_of (10 :: nat)]}"
  shows "loads (dumps isep ksep v @ end) = Inr v"
proof -
  have "delimited end" "skip_ws end = []"
    using assms(3) by (auto simp: delimited_def skip_ws_def is_ws_def)
  with reads_backD [OF reads_back_plain [OF assms(1,2)], of "end" "2 * length (dumps isep ksep v @ end) + 2"]
  show ?thesis by (simp add: loads_def)
qed

section \<open>Sorted keys\<close>

lemma map_of_sort_key:
  "distinct (map fst kvs) \<Longrightarrow> map_of (sort_key fst kvs) = map_of kvs"
  by (intro map_of_inject_set [THEN iffD2]) (simp_all add: mset_eq_imp_distinct_iff [of "map fst (sort_key fst kvs)" "map fst kvs"])

section \<open>Printable text\<close>

definition printable :: "string \<Rightarrow> bool" where
  "printable s \<longleftrightarrow> (\<forall>c \<in> set s. 32 \<le> code c \<and> code c \<le> 126)"

lemma printable_simps [simp]:
  "printable []" "printable (c # s) \<longleftrightarrow> 32 \<le> code c \<and> code c \<le> 126 \<and> printable s"
  "printable (s @ t) \<longleftrightarrow> printable s \<and> printable t"
  by (auto simp: printable_def)

lemma hex_char_printable: "d < 16 \<Longrightarrow> 32 \<le> code (hex_char d) \<and> code (hex_char d) \<le> 126"
  by (cases "d < 10") (simp_all add: hex_char_def)

lemma escape_printable: "printable (escape c)"
  using hex_char_printable [of "code c div 16"] hex_char_printable [of "code c mod 16"]
    less_mult_imp_div_less [of "code c" 16 16]
  by (auto simp: escape_def) (simp_all add: code_def)

lemma quoted_printable [simp]: "printable (quoted s)"
  by (induction s) (auto simp: quoted_def escape_printable)

lemma str_int_printable [simp]: "printable (str_int i)"
proof -
  have "printable (str_nat n)" for n
    using str_nat_digits [of n] by (auto simp: printable_def is_digit_def)
  then show ?thesis by (simp add: str_int_def) (simp add: code_def)
qed

lemma join_printable: "printable sep \<Longrightarrow> \<forall>x \<in> set xs. printable x \<Longrightarrow> printable (join sep xs)"
  by (induction sep xs rule: join.induct) auto

lemma dumps_printable: "plain v \<Longrightarrow> printable isep \<Longrightarrow> printable ksep \<Longrightarrow> printable (dumps isep ksep v)"
proof (induction v)
  case (JObject kvs)
  then have "printable (join isep (map (\<lambda>x. quoted (fst x) @ ksep @ dumps isep ksep (snd x)) kvs))"
    by (intro join_printable) (auto simp: snds.simps)
  then show ?case by (simp add: code_def)
next
  case (JArray xs)
  then have "printable (join isep (map (dumps isep ksep) xs))"
    by (intro join_printable) auto
  then show ?case by (simp add: code_def)
qed (auto simp: code_def)

section \<open>Text files\<close>

text \<open>
  A text file opened for reading: line ends are translated to a line feed, and iteration
  yields the lines with it.
\<close>

fun universal_newlines :: "string \<Rightarrow> string" where
  "universal_newlines [] = []"
| "universal_newlines [c] = (if code c = 13 then [char_of (10 :: nat)] else [c])"
| "universal_newlines (c # d # s) =
     (if code c = 13
      then char_of (10 :: nat) # universal_newlines (if code d = 10 then s else d # s)
      else c # universal_newlines (d # s))"

fun split_lines :: "string \<Rightarrow> string list" where
  "split_lines [] = []"
| "split_lines (c # s) =
     (if code c = 10 then [c] # split_lines s
      else case split_lines s of [] \<Rightarrow> [[c]] | l # ls \<Rightarrow> (c # l) # ls)"

definition lines_of :: "string \<Rightarrow> string list" where
  "lines_of content = split_lines (universal_newlines content)"

text \<open>A list comprehension whose body may raise: the first exception ends it.\<close>

fun collect :: "('a \<Rightarrow> exn + 'b) \<Rightarrow> 'a list \<Rightarrow> exn + 'b list" where
  "collect f [] = Inr []"
| "collect f (x # xs) =
     (case f x of Inl e \<Rightarrow> Inl e
      | Inr y \<Rightarrow> (case collect f xs of Inl e \<Rightarrow> Inl e | Inr ys \<Rightarrow> Inr (y # ys)))"

lemma collect_map: "(\<And>x. x \<in> set xs \<Longrightarrow> f (g x) = Inr (h x)) \<Longrightarrow> collect f (map g xs) = Inr (map h xs)"
  by (induction xs) simp_all

text \<open>\<open>str.strip\<close> leaves nothing of a string of white space.\<close>

definition is_space :: "char \<Rightarrow> bool" where
  "is_space c \<longleftrightarrow> code c \<in> {9 .. 13} \<union> {28 .. 32} \<union> {133, 160}"

definition blank :: "string \<Rightarrow> bool" where
  "blank s \<longleftrightarrow> (\<forall>c \<in> set s. is_space c)"

definition unbroken :: "string \<Rightarrow> bool" where
  "unbroken s \<longleftrightarrow> (\<forall>c \<in> set s. code c \<noteq> 10 \<and> code c \<noteq> 13)"

lemma printable_unbroken: "printable s \<Longrightarrow> unbroken s"
  by (fastforce simp: printable_def unbroken_def)

lemma universal_newlines_append:
  "\<forall>c \<in> set s. code c \<noteq> 13 \<Longrightarrow> universal_newlines (s @ t) = s @ universal_newlines t"
  by (induction s rule: universal_newlines.induct) (auto split: list.split, (cases t; simp)+)

lemma split_lines_append: "unbroken l \<Longrightarrow> split_lines (l @ char_of (10 :: nat) # s) = (l @ [char_of (10 :: nat)]) # split_lines s"
  by (induction l) (auto simp: unbroken_def)

lemma lines_of_written:
  "\<forall>l \<in> set ls. unbroken l \<Longrightarrow>
   lines_of (concat (map (\<lambda>l. l @ [char_of (10 :: nat)]) ls)) = map (\<lambda>l. l @ [char_of (10 :: nat)]) ls"
proof (induction ls)
  case Nil
  then show ?case by (simp add: lines_of_def)
next
  case (Cons l ls)
  have "universal_newlines ((l @ [char_of (10 :: nat)]) @ s) = (l @ [char_of (10 :: nat)]) @ universal_newlines s" for s
    using Cons.prems by (intro universal_newlines_append) (auto simp: unbroken_def)
  with Cons show ?case by (simp add: lines_of_def split_lines_append)
qed

end
