(* ===== verification/Logging.thy ===== *)
theory Logging
  imports Processor Json
begin

text \<open>
  \<open>core/structured_logging.py\<close> and the log lines of \<open>services/processor.py\<close>: what
  \<open>log_json\<close> hands to the logger, the fields each successful processing logs, and that
  the line is one line of printable text from which \<open>json.loads\<close> recovers the fields.
\<close>

text \<open>\<open>json.dumps({"event": event, **fields}, sort_keys=True)\<close>\<close>

definition log_json :: "string \<Rightarrow> (string \<times> json) list \<Rightarrow> string" where
  "log_json event fs = dumps '', '' '': '' (sort_keys (JObject ((''event'', JString event) # fs)))"

definition json_option :: "('a \<Rightarrow> json) \<Rightarrow> 'a option \<Rightarrow> json" where
  "json_option f x = (case x of None \<Rightarrow> JNull | Some y \<Rightarrow> f y)"

definition processed_fields ::
  "operational_event \<Rightarrow> incident option \<Rightarrow> action option \<Rightarrow> (string \<times> json) list" where
  "processed_fields e i a =
     [(''event_id'', JInt (event_id e)),
      (''incident_id'', json_option (\<lambda>x. JInt (incident_id x)) i),
      (''action_id'', json_option (\<lambda>x. JInt (action_id x)) a)]"

text \<open>The three calls of \<open>log_json\<close>: without a key, with a key, and for a replay.\<close>

definition log_processed :: "process_result \<Rightarrow> string" where
  "log_processed r =
     (case r of (e, i, a, skipped, _) \<Rightarrow>
        log_json ''event_processed'' (processed_fields e i a @
          [(''skipped_reason'', json_option JString skipped),
           (''correlation_id'', JString (event_correlation_id e))]))"

definition log_keyed :: "event_create \<Rightarrow> process_result \<Rightarrow> string" where
  "log_keyed p r =
     (case r of (e, i, a, skipped, _) \<Rightarrow>
        log_json ''event_processed'' (processed_fields e i a @
          [(''skipped_reason'', json_option JString skipped),
           (''idempotency_key'', json_option JString (ec_idempotency_key p)),
           (''correlation_id'', JString (event_correlation_id e))]))"

definition log_replay :: "string \<Rightarrow> process_result \<Rightarrow> string" where
  "log_replay key r =
     (case r of (e, i, a, _) \<Rightarrow>
        log_json ''idempotency_replay'' (processed_fields e i a @
          [(''idempotency_key'', JString key),
           (''correlation_id'', JString (event_correlation_id e))]))"

text \<open>The line a call of \<open>process\<close> that returned \<open>r\<close> has logged.\<close>

definition log_line :: "event_create \<Rightarrow> process_result \<Rightarrow> string" where
  "log_line p r =
     (case r of (_, _, _, _, replayed) \<Rightarrow>
        if replayed then log_replay (the (ec_idempotency_key p)) r
        else if truthy (ec_idempotency_key p) then log_keyed p r
        else log_processed r)"

section \<open>Any log line\<close>

lemma default_separators [simp]: "separators '', '' '': ''"
  by (simp add: separators_def)

lemma plain_sort_keys: "plain v \<Longrightarrow> plain (sort_keys v)"
proof (induction v)
  case (JObject kvs)
  have "mset (map fst (sort_key fst (map (\<lambda>x. (fst x, sort_keys (snd x))) kvs))) = mset (map fst kvs)"
    by (simp add: image_mset.compositionality comp_def)
  then have "distinct (map fst (sort_key fst (map (\<lambda>x. (fst x, sort_keys (snd x))) kvs)))"
    using JObject.prems mset_eq_imp_distinct_iff by fastforce
  then show ?case using JObject by (auto simp: snds.simps)
qed auto

definition flat :: "(string \<times> json) list \<Rightarrow> bool" where
  "flat fs \<longleftrightarrow> (\<forall>x \<in> set fs. plain (snd x) \<and> sort_keys (snd x) = snd x)"

lemma log_json_reads_back:
  assumes "distinct (map fst fs)" "''event'' \<notin> fst ` set fs" "flat fs"
  shows "\<exists>kvs. loads (log_json event fs) = Inr (JObject kvs) \<and>
      map_of kvs = map_of ((''event'', JString event) # fs) \<and> sorted (map fst kvs) \<and>
      printable (log_json event fs)"
proof -
  let ?kvs = "(''event'', JString event) # fs"
  have same: "map (\<lambda>x. (fst x, sort_keys (snd x))) ?kvs = ?kvs"
    using assms(3) by (auto simp: flat_def intro!: map_idI)
  have plain: "plain (JObject ?kvs)" using assms by (auto simp: flat_def)
  have "loads (log_json event fs @ []) = Inr (sort_keys (JObject ?kvs))"
    unfolding log_json_def by (rule loads_dumps [OF default_separators plain_sort_keys [OF plain]]) simp
  moreover have "sort_keys (JObject ?kvs) = JObject (sort_key fst ?kvs)"
    by (simp only: sort_keys.simps same)
  moreover have "map_of (sort_key fst ?kvs) = map_of ?kvs"
    using plain by (intro map_of_sort_key) simp
  moreover have "printable (log_json event fs)"
    unfolding log_json_def by (intro dumps_printable plain_sort_keys [OF plain]) (simp_all add: Json.code_def)
  moreover have "sorted (map fst (sort_key fst ?kvs))" by (rule sorted_sort_key)
  ultimately show ?thesis by (intro exI [of _ "sort_key fst ?kvs"]) simp
qed

section \<open>The line of a processing\<close>

lemma json_option_flat [simp]:
  "plain (json_option JString x)" "sort_keys (json_option JString x) = json_option JString x"
  "plain (json_option (\<lambda>x. JInt (f x)) y)" "sort_keys (json_option (\<lambda>x. JInt (f x)) y) = json_option (\<lambda>x. JInt (f x)) y"
  by (simp_all add: json_option_def split: option.split)

text \<open>What a reader of the log finds under each key.\<close>

definition log_entry :: "event_create \<Rightarrow> process_result \<Rightarrow> string \<Rightarrow> json option" where
  "log_entry p r k =
     (case r of (e, i, a, skipped, replayed) \<Rightarrow>
        map_of ([(''event'', JString (if replayed then ''idempotency_replay'' else ''event_processed'')),
            (''event_id'', JInt (event_id e)),
            (''incident_id'', json_option (\<lambda>x. JInt (incident_id x)) i),
            (''action_id'', json_option (\<lambda>x. JInt (action_id x)) a),
            (''correlation_id'', JString (event_correlation_id e))] @
          (if replayed then [] else [(''skipped_reason'', json_option JString skipped)]) @
          (if replayed \<or> truthy (ec_idempotency_key p)
           then [(''idempotency_key'', JString (the (ec_idempotency_key p)))] else [])) k)"

text \<open>
  C37. The log line of a processing is one line of printable ASCII, whatever the payload's
  strings contain (line breaks, quotes, control characters), and reading it with
  \<open>json.loads\<close> gives back exactly the logged fields: the event, incident and action
  identifiers, the skip reason (not logged for a replay), the idempotency key where there
  is one, and the correlation identifier; the keys come in sorted order.
\<close>

theorem log_line_roundtrip:
  "\<exists>kvs. loads (log_line p r) = Inr (JObject kvs) \<and> map_of kvs = log_entry p r \<and>
     sorted (map fst kvs) \<and> printable (log_line p r)"
proof -
  obtain e i a skipped replayed where r: "r = (e, i, a, skipped, replayed)" by (cases r) auto
  have key: "truthy (ec_idempotency_key p) \<Longrightarrow> json_option JString (ec_idempotency_key p) = JString (the (ec_idempotency_key p))"
    by (simp add: truthy_def json_option_def split: option.splits)
  let ?skip = "(''skipped_reason'', json_option JString skipped)"
    and ?corr = "(''correlation_id'', JString (event_correlation_id e))"
    and ?key = "(''idempotency_key'', JString (the (ec_idempotency_key p)))"
  note fs = log_json_reads_back [of "processed_fields e i a @ more" for more]
  consider "replayed" | "\<not> replayed" "truthy (ec_idempotency_key p)" | "\<not> replayed" "\<not> truthy (ec_idempotency_key p)"
    by blast
  then show ?thesis
  proof cases
    case 1
    with r fs [of "[?key, ?corr]" "''idempotency_replay''"] show ?thesis
      by (auto simp: log_line_def log_replay_def processed_fields_def flat_def log_entry_def fun_eq_iff)
  next
    case 2
    with r key fs [of "[?skip, ?key, ?corr]" "''event_processed''"] show ?thesis
      by (auto simp: log_line_def log_keyed_def processed_fields_def flat_def log_entry_def fun_eq_iff)
  next
    case 3
    with r fs [of "[?skip, ?corr]" "''event_processed''"] show ?thesis
      by (auto simp: log_line_def log_processed_def processed_fields_def flat_def log_entry_def fun_eq_iff)
  qed
qed

end
