(* ===== verification/Retry.thy ===== *)
theory Retry
  imports Actions
begin

text \<open>
  Callers of the retry loop: the command line demo, the contract runner and the engine
  benchmark run \<open>execute_action_with_retry\<close> on each of a list of actions. The lemmas say
  which rows one call changes and what the list of calls does to the table of actions.
\<close>

section \<open>The rows a call of the retry loop changes\<close>

lemma once_rows:
  assumes "execute_action_once E m ts d T now a w = (Inr b, w1)"
  shows "action_id b = action_id a" "action_incident_id b = action_incident_id a"
    "action_action_type b = action_action_type a"
    "put_row action_id a (actions (db w)) = actions (db w) \<Longrightarrow>
     actions (db w1) = put_row action_id b (actions (db w))"
  using assms by (auto simp: execute_action_once_def Let_def split_beta split: if_splits sum.splits)

definition same_rest :: "world \<Rightarrow> world \<Rightarrow> bool" where
  "same_rest w w' \<longleftrightarrow>
     assets (db w') = assets (db w) \<and> rules (db w') = rules (db w) \<and> events (db w') = events (db w) \<and>
     incidents (db w') = incidents (db w) \<and> idems (db w') = idems (db w) \<and> jobs (db w') = jobs (db w) \<and>
     checks (db w') = checks (db w) \<and> saved w' = saved w"

lemma same_rest_refl [simp]: "same_rest w w"
  by (simp add: same_rest_def)

lemma same_rest_trans: "same_rest u v \<Longrightarrow> same_rest v w \<Longrightarrow> same_rest u w"
  by (simp add: same_rest_def)

lemma once_same_rest [simp]: "same_rest w (snd (execute_action_once E m ts d T now a w))"
  by (simp add: same_rest_def)

text \<open>The audit entries an execution adds are of one kind.\<close>

definition only_executed :: "database \<Rightarrow> database \<Rightarrow> bool" where
  "only_executed d d' \<longleftrightarrow>
     (\<exists>more. map audit_event_type (audits d') = map audit_event_type (audits d) @ more \<and> set more \<subseteq> {''action_executed''})"

lemma only_executed_refl [simp]: "only_executed d d"
  by (auto simp: only_executed_def)

lemma only_executed_trans: "only_executed d d' \<Longrightarrow> only_executed d' d'' \<Longrightarrow> only_executed d d''"
  by (fastforce simp: only_executed_def)

lemma once_only_executed [simp]: "only_executed (db w) (db (snd (execute_action_once E m ts d T now a w)))"
  by (auto simp: execute_action_once_def only_executed_def add_audit_def Let_def split_beta split: sum.split)

lemma retry_loop_rows:
  assumes "retry_loop E m ts T a w = Some (x, w')"
  shows "same_rest w w' \<and> only_executed (db w) (db w') \<and>
    (\<forall>a'. x = Inr a' \<longrightarrow> action_id a' = action_id a \<and>
       action_incident_id a' = action_incident_id a \<and> action_action_type a' = action_action_type a \<and>
       (put_row action_id a (actions (db w)) = actions (db w) \<longrightarrow>
          actions (db w') = put_row action_id a' (actions (db w))))"
    (is "?P a w x w'")
proof -
  have "?P a w (fst y) (snd y)" if returned: "retry_loop E m ts T a w = Some y" for E m ts T a w y
  proof (rule retry_loop.raw_induct [OF _ returned], goal_cases)
    case (1 loop E m ts T a w y)
    show ?case
    proof (cases "action_state a \<in> action_state_value ` {ActionState_SUCCEEDED, ActionState_FAILED}")
      case True
      then show ?thesis using 1(2) by auto
    next
      case False
      obtain z w1 where once: "execute_action_once E m ts 0 T None a w = (z, w1)" by fastforce
      have w1: "same_rest w w1" "only_executed (db w) (db w1)"
        using once_same_rest [of w E m ts 0 T None a] once_only_executed [of w E m ts 0 T None a] once by simp_all
      show ?thesis
      proof (cases z)
        case (Inl e)
        then show ?thesis using 1(2) False once w1 by auto
      next
        case (Inr b)
        note rows = once_rows [OF once [unfolded Inr]]
        have "loop E m ts T b w1 = Some y" using 1(2) False once Inr by simp
        note IH = 1(1) [OF this]
        have "action_id a' = action_id a \<and> action_incident_id a' = action_incident_id a \<and>
            action_action_type a' = action_action_type a \<and> (put_row action_id a (actions (db w)) = actions (db w) \<longrightarrow>
            actions (db (snd y)) = put_row action_id a' (actions (db w)))" if "fst y = Inr a'" for a'
          using IH that rows by (simp add: put_row_put_row)
        moreover have "same_rest w (snd y)" using IH by (blast intro: same_rest_trans [OF w1(1)])
        moreover have "only_executed (db w) (db (snd y))" using IH by (blast intro: only_executed_trans [OF w1(2)])
        ultimately show ?thesis by blast
      qed
    qed
  qed
  from this [OF assms, unfolded fst_conv snd_conv] show ?thesis .
qed

section \<open>Executing a list of actions\<close>

text \<open>
  \<open>for action in actions: execute_action_with_retry(session, action); after(session)\<close>,
  where \<open>after\<close> is what the caller does between two actions (nothing, or a commit).
\<close>

fun execute_each ::
  "env \<Rightarrow> int \<Rightarrow> rat \<Rightarrow> (world \<Rightarrow> world) \<Rightarrow> action list \<Rightarrow> world \<Rightarrow> (unit outcome) option" where
  "execute_each E m ts after [] w = Some (Inr (), w)"
| "execute_each E m ts after (a # as) w =
     (case execute_action_with_retry E m ts default_transport a w of
        None \<Rightarrow> None
      | Some (Inl e, w1) \<Rightarrow> Some (Inl e, w1)
      | Some (Inr _, w1) \<Rightarrow> execute_each E m ts after as (after w1))"

text \<open>What becomes of one of these actions.\<close>

definition finished :: "int \<Rightarrow> rat \<Rightarrow> action \<Rightarrow> action \<Rightarrow> bool" where
  "finished m ts a b \<longleftrightarrow>
     action_id b = action_id a \<and> action_incident_id b = action_incident_id a \<and>
     action_action_type b = action_action_type a \<and>
     action_state b \<in> action_state_value ` {ActionState_SUCCEEDED, ActionState_FAILED} \<and>
     action_attempts a < action_attempts b \<and> action_attempts b \<le> max (action_attempts a + 1) m \<and>
     (action_state a = action_state_value ActionState_QUEUED \<and> action_attempts a = 0 \<longrightarrow>
        (let (s, n, d) = expected_verdict m ts (action_action_type a) (action_detail a)
         in action_state b = action_state_value s \<and> action_attempts b = n \<and> action_detail b = d))"

lemma execute_one:
  assumes "1 \<le> m" "live a" "distinct (map action_id (actions (db w)))" "a \<in> set (actions (db w))"
  shows "\<exists>b w'. execute_action_with_retry E m ts default_transport a w = Some (Inr b, w') \<and> finished m ts a b \<and>
    same_rest w w' \<and> only_executed (db w) (db w') \<and> actions (db w') = put_row action_id b (actions (db w))"
proof -
  have run: "execute_action_with_retry E m ts default_transport a w = retry_loop E m ts default_transport a w"
    using assms(1) by (simp add: execute_action_with_retry_def)
  have get: "get_action w (action_id a) = Some a"
    using find_row_unique [OF assms(3,4)] by (simp add: get_action_def)
  then obtain b w' where ret: "retry_loop E m ts default_transport a w = Some (Inr b, w')"
    "action_state b \<in> action_state_value ` {ActionState_SUCCEEDED, ActionState_FAILED}"
    "action_attempts a < action_attempts b" "action_attempts b \<le> max (action_attempts a + 1) m"
    using retry_loop_returns [OF assms(1) default_transport_handled assms(2), of w E ts] by auto
  have "put_row action_id a (actions (db w)) = actions (db w)"
    using assms(3,4) by (auto simp: put_row_def intro!: map_idI dest: map_of_eq_None_iff [THEN iffD1] inj_onD [OF distinct_map [THEN iffD1, THEN conjunct2]])
  with retry_loop_rows [OF ret(1)] have rows: "action_id b = action_id a" "action_incident_id b = action_incident_id a"
    "action_action_type b = action_action_type a" "same_rest w w'"
    "only_executed (db w) (db w')" "actions (db w') = put_row action_id b (actions (db w))"
    by auto
  have "let (s, n, d) = expected_verdict m ts (action_action_type a) (action_detail a)
      in action_state b = action_state_value s \<and> action_attempts b = n \<and> action_detail b = d"
    if "action_state a = action_state_value ActionState_QUEUED" "action_attempts a = 0"
    using default_verdict [OF assms(1) that, of E ts w] run ret(1) by (auto simp: split_beta Let_def)
  then have "finished m ts a b" using ret rows by (simp add: finished_def)
  with run ret(1) rows show ?thesis by auto
qed

text \<open>The table after the whole list: its members are finished, the other rows unchanged.\<close>

lemma execute_each_rows:
  assumes "1 \<le> m" and after: "\<And>v. db (after v) = db v"
  shows "distinct (map action_id (actions (db w))) \<Longrightarrow> distinct (map action_id as) \<Longrightarrow>
    \<forall>a \<in> set as. live a \<and> a \<in> set (actions (db w)) \<Longrightarrow>
    \<exists>w'. execute_each E m ts after as w = Some (Inr (), w') \<and> only_executed (db w) (db w') \<and>
      same_rest (w'\<lparr>saved := saved w\<rparr>) w \<and> ((\<forall>v. saved (after v) = saved v) \<longrightarrow> saved w' = saved w) \<and>
      list_all2 (\<lambda>a b. if a \<in> set as then finished m ts a b else b = a) (actions (db w)) (actions (db w'))"
proof (induction as arbitrary: w)
  case Nil
  then show ?case by (simp add: list_all2_refl same_rest_def)
next
  case (Cons a as)
  obtain b w1 where one: "execute_action_with_retry E m ts default_transport a w = Some (Inr b, w1)"
    "finished m ts a b" "same_rest w w1" "only_executed (db w) (db w1)"
    "actions (db w1) = put_row action_id b (actions (db w))"
    using execute_one [OF assms(1), of a w E ts] Cons.prems by auto
  have id: "action_id b = action_id a" using one(2) by (simp add: finished_def)
  have "\<forall>c \<in> set as. live c \<and> c \<in> set (actions (db (after w1)))"
  proof
    fix c assume c: "c \<in> set as"
    then have "action_id c \<noteq> action_id b" using Cons.prems(2) id by (auto simp: image_iff)
    with c Cons.prems(3) show "live c \<and> c \<in> set (actions (db (after w1)))"
      by (auto simp: after one(5) put_row_def image_iff)
  qed
  with Cons.IH [of "after w1"] Cons.prems(1,2) obtain w' where
    rest: "execute_each E m ts after as (after w1) = Some (Inr (), w')" "only_executed (db w1) (db w')"
      "same_rest (w'\<lparr>saved := saved (after w1)\<rparr>) (after w1)"
      "(\<forall>v. saved (after v) = saved v) \<longrightarrow> saved w' = saved (after w1)"
      "list_all2 (\<lambda>a b. if a \<in> set as then finished m ts a b else b = a) (actions (db w1)) (actions (db w'))"
    by (auto simp: after one(5))
  have "list_all2 (\<lambda>x y. if x \<in> set (a # as) then finished m ts x y else y = x) (actions (db w)) (actions (db w'))"
    unfolding list_all2_conv_all_nth
  proof (intro conjI allI impI)
    show len: "length (actions (db w)) = length (actions (db w'))"
      using list_all2_lengthD [OF rest(5)] one(5) by simp
    fix i assume i: "i < length (actions (db w))"
    let ?x = "actions (db w) ! i" and ?y = "actions (db w') ! i"
    have step: "if actions (db w1) ! i \<in> set as then finished m ts (actions (db w1) ! i) ?y else ?y = actions (db w1) ! i"
      using list_all2_nthD [OF rest(5), of i] i one(5) by simp
    have same: "x = z" if "x \<in> set (actions (db w))" "z \<in> set (actions (db w))" "action_id x = action_id z" for x z
      using that Cons.prems(1) by (auto simp: distinct_map dest: inj_onD)
    show "if ?x \<in> set (a # as) then finished m ts ?x ?y else ?y = ?x"
    proof (cases "action_id ?x = action_id a")
      case True
      then have x: "?x = a" using same i Cons.prems(3) by simp
      have "actions (db w1) ! i = b" using i True id by (simp add: one(5) put_row_def)
      moreover have "b \<notin> set as" using Cons.prems(2) id by (auto simp: image_iff)
      ultimately show ?thesis using step x one(2) by simp
    next
      case False
      then have "actions (db w1) ! i = ?x" using i id by (simp add: one(5) put_row_def)
      moreover have "?x \<noteq> a" using False by auto
      ultimately show ?thesis using step by (auto split: if_splits)
    qed
  qed
  with one rest only_executed_trans [OF one(4) rest(2)] show ?case
    by (auto simp: same_rest_def after)
qed

end
