(* ===== verification/Contract.thy ===== *)
theory Contract
  imports Retry Logging Worker
begin

text \<open>
  \<open>contract.py\<close>: loading a workload file, seeding the assets its rows name, processing the
  rows, executing the queued actions and summarising the database. Two parts of Python's
  environment are parameters: \<open>render\<close> is \<open>str\<close> on a float, list or dictionary, and
  \<open>validate\<close> is pydantic's constructor of \<open>EventCreate\<close> from the items of a row.
\<close>

section \<open>Loading and seeding\<close>

definition load_workload :: "string \<Rightarrow> exn + json list" where
  "load_workload content = collect loads (filter (\<lambda>line. \<not> blank line) (lines_of content))"

text \<open>\<open>row[key]\<close> and \<open>str(value)\<close> on values read from JSON.\<close>

definition subscript :: "string \<Rightarrow> json \<Rightarrow> exn + json" where
  "subscript key row =
     (case row of
        JObject kvs \<Rightarrow> (case map_of kvs key of Some v \<Rightarrow> Inr v | None \<Rightarrow> Inl (OtherError ''KeyError''))
      | _ \<Rightarrow> Inl (OtherError ''TypeError''))"

fun py_str :: "(json \<Rightarrow> string) \<Rightarrow> json \<Rightarrow> string" where
  "py_str render JNull = ''None''"
| "py_str render (JBool b) = (if b then ''True'' else ''False'')"
| "py_str render (JInt i) = str_int i"
| "py_str render (JString s) = s"
| "py_str render v = render v"

definition asset_id_of :: "(json \<Rightarrow> string) \<Rightarrow> json \<Rightarrow> exn + string" where
  "asset_id_of render row = (case subscript ''asset_id'' row of Inl e \<Rightarrow> Inl e | Inr v \<Rightarrow> Inr (py_str render v))"

definition seed_assets_from_events ::
  "env \<Rightarrow> (json \<Rightarrow> string) \<Rightarrow> json list \<Rightarrow> world \<Rightarrow> unit outcome" where
  "seed_assets_from_events E render rows w =
     (case collect (asset_id_of render) rows of
        Inl e \<Rightarrow> (Inl e, w)
      | Inr ids \<Rightarrow>
          let existing = asset_external_id ` set (assets (db w));
              new = filter (\<lambda>x. x \<notin> existing) (sort (remdups ids))
          in case for_each (\<lambda>x. add_asset E x (''Synthetic asset '' @ x) ''contract'' ''unknown'') new w of
               (Inl e, w1) \<Rightarrow> (Inl e, w1)
             | (Inr _, w1) \<Rightarrow> (Inr (), w1))"

section \<open>Processing the rows\<close>

record skipped_counts =
  sk_normal :: int
  sk_warning_no_action :: int
  sk_cooldown :: int

definition no_skips :: skipped_counts where
  "no_skips = \<lparr>sk_normal = 0, sk_warning_no_action = 0, sk_cooldown = 0\<rparr>"

definition count_skip :: "string option \<Rightarrow> skipped_counts \<Rightarrow> skipped_counts" where
  "count_skip skipped c =
     (if skipped = Some ''normal'' then c\<lparr>sk_normal := sk_normal c + 1\<rparr>
      else if skipped = Some ''warning_no_action'' then c\<lparr>sk_warning_no_action := sk_warning_no_action c + 1\<rparr>
      else if skipped = Some ''cooldown'' then c\<lparr>sk_cooldown := sk_cooldown c + 1\<rparr>
      else c)"

text \<open>
  \<open>_event, _incident, _action, skipped = processor.process(payload)\<close>: four targets for the
  five values that \<open>process\<close> returns, which raises.
\<close>

definition unpack_skipped :: "process_result \<Rightarrow> exn + string option" where
  "unpack_skipped result =
     (case result of (_, _, _, _, _) \<Rightarrow> Inl (ValueError ''too many values to unpack (expected 4)''))"

definition items_of :: "json \<Rightarrow> exn + (string \<times> json) list" where
  "items_of row = (case row of JObject kvs \<Rightarrow> Inr kvs | _ \<Rightarrow> Inl (OtherError ''TypeError''))"

definition process_row ::
  "env \<Rightarrow> ((string \<times> json) list \<Rightarrow> exn + event_create) \<Rightarrow> json \<Rightarrow> world \<Rightarrow> (string option) outcome" where
  "process_row E validate row w =
     (case items_of row of
        Inl e \<Rightarrow> (Inl e, w)
      | Inr kvs \<Rightarrow>
          (case validate kvs of
             Inl e \<Rightarrow> (Inl e, w)
           | Inr payload \<Rightarrow>
               (case process E payload w of
                  (Inl e, w1) \<Rightarrow> (Inl e, w1)
                | (Inr result, w1) \<Rightarrow> (unpack_skipped result, w1))))"

fun process_rows ::
  "env \<Rightarrow> ((string \<times> json) list \<Rightarrow> exn + event_create) \<Rightarrow> skipped_counts \<Rightarrow> json list \<Rightarrow> world \<Rightarrow> skipped_counts outcome" where
  "process_rows E validate c [] w = (Inr c, w)"
| "process_rows E validate c (row # rows) w =
     (case process_row E validate row w of
        (Inl e, w1) \<Rightarrow> (Inl e, w1)
      | (Inr skipped, w1) \<Rightarrow> process_rows E validate (count_skip skipped c) rows w1)"

definition queued_actions :: "env \<Rightarrow> world \<Rightarrow> action list" where
  "queued_actions E w =
     sort_key action_id
       (filter (\<lambda>a. action_state a = action_state_value ActionState_QUEUED) (scan_actions E (actions (db w))))"

section \<open>The summary\<close>

record contract_summary =
  cs_events :: int
  cs_incidents :: int
  cs_actions :: int
  cs_audit_logs :: int
  cs_normal_events :: int
  cs_warning_incidents :: int
  cs_suppressions :: int
  cs_action_succeeded :: int
  cs_action_failed :: int
  cs_retries :: int

definition canonical_summary :: "world \<Rightarrow> skipped_counts \<Rightarrow> contract_summary" where
  "canonical_summary w c =
     \<lparr>cs_events = int (length (events (db w))), cs_incidents = int (length (incidents (db w))),
      cs_actions = int (length (actions (db w))), cs_audit_logs = int (length (audits (db w))),
      cs_normal_events = sk_normal c, cs_warning_incidents = sk_warning_no_action c,
      cs_suppressions = sk_cooldown c,
      cs_action_succeeded = count_state ActionState_SUCCEEDED (actions (db w)),
      cs_action_failed = count_state ActionState_FAILED (actions (db w)),
      cs_retries = sum_list (map (\<lambda>a. max (action_attempts a - 1) 0) (actions (db w)))\<rparr>"

definition process_contract_events ::
  "env \<Rightarrow> (json \<Rightarrow> string) \<Rightarrow> ((string \<times> json) list \<Rightarrow> exn + event_create) \<Rightarrow> bool \<Rightarrow> json list \<Rightarrow> world \<Rightarrow>
   (contract_summary outcome) option" where
  "process_contract_events E render validate process_actions rows w =
     (case seed_assets_from_events E render rows w of
        (Inl e, w1) \<Rightarrow> Some (Inl e, w1)
      | (Inr _, w1) \<Rightarrow>
          (case process_rows E validate no_skips rows w1 of
             (Inl e, w2) \<Rightarrow> Some (Inl e, w2)
           | (Inr c, w2) \<Rightarrow>
               if process_actions
               then (case execute_each E 3 (1 / 5) (\<lambda>v. v) (queued_actions E w2) w2 of
                       None \<Rightarrow> None
                     | Some (Inl e, w3) \<Rightarrow> Some (Inl e, w3)
                     | Some (Inr _, w3) \<Rightarrow> Some (Inr (canonical_summary w3 c), w3))
               else Some (Inr (canonical_summary w2 c), w2)))"

section \<open>Workload files\<close>

text \<open>
  The writer of the workload files (\<open>benchmarks/generate_workloads.py\<close>): one compact
  line per event, with sorted keys.
\<close>

definition workload_line :: "json \<Rightarrow> string" where
  "workload_line event = dumps '','' '':'' (sort_keys event) @ [char_of (10 :: nat)]"

definition workload_text :: "json list \<Rightarrow> string" where
  "workload_text rows = concat (map workload_line rows)"

lemma compact_separators [simp]: "separators '','' '':''"
  by (simp add: separators_def)

lemma dumps_not_blank: "plain v \<Longrightarrow> (\<forall>s. v \<noteq> JString s) \<Longrightarrow> \<not> blank (dumps isep ksep v @ s)"
proof (cases v)
  case (JInt i)
  obtain c cs where "str_int i = c # cs" "c = CHR ''-'' \<or> is_digit c" by (rule str_int_head)
  with JInt show ?thesis by (auto simp: blank_def is_space_def is_digit_def Json.code_def)
qed (auto simp: blank_def is_space_def Json.code_def)

lemma load_written:
  assumes "\<forall>row \<in> set rows. plain row \<and> (\<exists>kvs. row = JObject kvs)"
  shows "load_workload (workload_text rows) = Inr (map sort_keys rows)"
proof -
  let ?text = "\<lambda>row. dumps '','' '':'' (sort_keys row)"
  have plain: "plain (sort_keys row)" if "row \<in> set rows" for row
    using assms that by (simp add: plain_sort_keys)
  have "printable (?text row)" if "row \<in> set rows" for row
    using plain [OF that] by (intro dumps_printable) (simp_all add: Json.code_def)
  then have "\<forall>l \<in> set (map ?text rows). unbroken l" by (auto intro: printable_unbroken)
  from lines_of_written [OF this] have lines: "lines_of (workload_text rows) = map workload_line rows"
    by (simp add: workload_text_def workload_line_def [abs_def] comp_def)
  have "\<not> blank (workload_line row)" if "row \<in> set rows" for row
    using plain [OF that] assms that unfolding workload_line_def by (intro dumps_not_blank) auto
  then have "filter (\<lambda>line. \<not> blank line) (map workload_line rows) = map workload_line rows"
    by (auto simp: filter_id_conv)
  moreover have "collect loads (map workload_line rows) = Inr (map sort_keys rows)"
    unfolding workload_line_def by (intro collect_map loads_dumps [OF compact_separators plain]) auto
  ultimately show ?thesis by (simp add: load_workload_def lines)
qed

text \<open>
  A workload file written from any list of JSON dictionaries (whose values are not
  floats) is loaded as the same list, each dictionary in key order, whatever characters
  the strings contain.
\<close>

lemma load_written_workload:
  assumes "\<forall>row \<in> set rows. plain row \<and> (\<exists>kvs. row = JObject kvs)"
  shows "load_workload (workload_text rows) = Inr (map sort_keys rows)"
  using assms by (rule load_written)

text \<open>A row as the generator builds it; note that it has no \<open>asset_external_id\<close>.\<close>

definition sample_row :: json where
  "sample_row = JObject
     [(''asset_id'', JString ''ASSET-0001''), (''source'', JString ''north-gateway''),
      (''category'', JString ''offline''), (''severity'', JInt 88),
      (''occurred_at'', JString ''2026-01-01T00:00:00Z''),
      (''message'', JString ''Synthetic offline event #0''), (''executor_mode'', JString ''success'')]"

lemma load_written_workload_witness:
  "load_workload (workload_text [sample_row]) = Inr [sort_keys sample_row]"
  using load_written_workload [of "[sample_row]"] by (simp add: sample_row_def)

section \<open>A workload is never processed\<close>

lemma seed_assets_frame:
  "saved (snd (seed_assets_from_events E render rows w)) = saved w"
  "events (db (snd (seed_assets_from_events E render rows w))) = events (db w)"
  "incidents (db (snd (seed_assets_from_events E render rows w))) = incidents (db w)"
  "actions (db (snd (seed_assets_from_events E render rows w))) = actions (db w)"
proof -
  have loop: "P (snd (for_each (\<lambda>x. add_asset E x (''Synthetic asset '' @ x) ''contract'' ''unknown'') xs w))"
    if "P w" "\<And>x v. P v \<Longrightarrow> P (snd (add_asset E x (''Synthetic asset '' @ x) ''contract'' ''unknown'' v))" for P xs
    by (rule for_each_invariant [where P = P]) (use that in auto)
  show "saved (snd (seed_assets_from_events E render rows w)) = saved w"
    "events (db (snd (seed_assets_from_events E render rows w))) = events (db w)"
    "incidents (db (snd (seed_assets_from_events E render rows w))) = incidents (db w)"
    "actions (db (snd (seed_assets_from_events E render rows w))) = actions (db w)"
    using loop [of "\<lambda>v. saved v = saved w"] loop [of "\<lambda>v. events (db v) = events (db w)"]
      loop [of "\<lambda>v. incidents (db v) = incidents (db w)"] loop [of "\<lambda>v. actions (db v) = actions (db w)"]
    by (auto simp: seed_assets_from_events_def Let_def split_beta split: sum.split)
qed

lemma process_row_raises: "\<exists>e. fst (process_row E validate row w) = Inl e"
  by (auto simp: process_row_def unpack_skipped_def split: sum.split prod.split)

text \<open>The four-way unpacking is reached by the first row that validates and names a stored asset.\<close>

lemma process_row_known:
  assumes "validate kvs = Inr p" "\<not> truthy (ec_idempotency_key p)"
    and "find_asset (ec_asset_external_id p) w \<noteq> None"
  shows "fst (process_row E validate (JObject kvs) w) = Inl (ValueError ''too many values to unpack (expected 4)'') \<and>
    length (events (db (snd (process_row E validate (JObject kvs) w)))) = length (events (db w)) + 1"
proof -
  obtain e i a sk w1 where new: "process_new E p w = (Inr (e, i, a, sk), w1)"
    using process_new_total [OF assms(3)] by (metis prod.collapse)
  have "length (events (db w1)) = length (events (db w)) + 1"
    using process_new_rows [OF new] by simp
  with new assms(1,2) show ?thesis
    by (simp add: process_row_def items_of_def process_def unpack_skipped_def)
qed

text \<open>
  C33. The contract runner raises on every non-empty workload, whatever the rows, the
  database and the validator: no summary is ever returned. In particular a row that
  validates, without an idempotency key, for an asset that seeding stored is processed
  first (one more event row in the session) and then fails with a \<open>ValueError\<close>, because
  the five values of \<open>EventProcessor.process\<close> are unpacked into four names.
\<close>

theorem contract_always_raises:
  assumes "rows \<noteq> []"
  shows "\<exists>e w'. process_contract_events E render validate actions_too rows w = Some (Inl e, w') \<and>
    (\<forall>kvs p w1. hd rows = JObject kvs \<and> validate kvs = Inr p \<and> \<not> truthy (ec_idempotency_key p) \<and>
       seed_assets_from_events E render rows w = (Inr (), w1) \<and>
       find_asset (ec_asset_external_id p) w1 \<noteq> None \<longrightarrow>
       e = ValueError ''too many values to unpack (expected 4)'' \<and>
       length (events (db w')) = length (events (db w)) + 1)"
proof -
  obtain row rest where rows: "rows = row # rest" using assms by (cases rows) auto
  obtain x w1 where seed: "seed_assets_from_events E render rows w = (x, w1)" by fastforce
  show ?thesis
  proof (cases x)
    case (Inl e)
    then show ?thesis using seed by (auto simp: process_contract_events_def)
  next
    case (Inr u)
    have events: "events (db w1) = events (db w)"
      using seed_assets_frame(2) [of E render rows w] seed by simp
    obtain e w2 where row: "process_row E validate row w1 = (Inl e, w2)"
      using process_row_raises [of E validate row w1] by (metis prod.collapse)
    then have run: "process_contract_events E render validate actions_too rows w = Some (Inl e, w2)"
      using seed Inr rows by (simp add: process_contract_events_def)
    have "e = ValueError ''too many values to unpack (expected 4)'' \<and>
        length (events (db w2)) = length (events (db w)) + 1"
      if "row = JObject kvs" "validate kvs = Inr p" "\<not> truthy (ec_idempotency_key p)"
        "find_asset (ec_asset_external_id p) w1 \<noteq> None" for kvs p
      using process_row_known [where validate = validate and kvs = kvs and p = p and w = w1 and E = E, OF that(2-4)]
        row that(1) events by simp
    with run seed rows show ?thesis by auto
  qed
qed

text \<open>The validator of pydantic on two inputs: a complete row, and one that lacks a required field.\<close>

definition sample_validate :: "(string \<times> json) list \<Rightarrow> exn + event_create" where
  "sample_validate kvs =
     (if map_of kvs ''asset_external_id'' = None then Inl (ValidationError ''asset_external_id: Field required'')
      else Inr demo_payload)"

definition complete_row :: json where
  "complete_row = JObject [(''asset_id'', JString ''PUMP-101''), (''asset_external_id'', JString ''PUMP-101'')]"

theorem contract_always_raises_witness:
  "\<exists>w'. process_contract_events demo_env (\<lambda>_. []) sample_validate True [complete_row] demo_world =
       Some (Inl (ValueError ''too many values to unpack (expected 4)''), w') \<and>
     length (events (db w')) = 1"
proof -
  have seed: "seed_assets_from_events demo_env (\<lambda>_. []) [complete_row] demo_world = (Inr (), demo_world)"
    by (simp add: seed_assets_from_events_def complete_row_def asset_id_of_def subscript_def demo_world_eq Let_def)
  have found: "find_asset ''PUMP-101'' demo_world \<noteq> None"
    by (simp add: find_asset_def demo_world_eq)
  from contract_always_raises [of "[complete_row]" demo_env "\<lambda>_. []" sample_validate True demo_world]
  show ?thesis
    using seed found by (auto simp: complete_row_def sample_validate_def demo_payload_def truthy_def)
qed

section \<open>Without events\<close>

text \<open>
  C34. On an empty workload the contract runner returns, for every database that satisfies
  the invariant: each queued action is executed to \<open>succeeded\<close> or \<open>failed\<close> within three
  attempts (a fresh one with the verdict of its executor mode), no other action and no
  other table changes except for \<open>action_executed\<close> audit entries, and the summary is the
  one of the resulting database with zero skip counts.
\<close>

theorem contract_executes_queue:
  assumes "scans_ok E" "wf w"
  shows "\<exists>w'. process_contract_events E render validate True [] w =
      Some (Inr (canonical_summary w' no_skips), w') \<and>
    same_rest w w' \<and> only_executed (db w) (db w') \<and>
    list_all2 (\<lambda>a b. if action_state a = action_state_value ActionState_QUEUED then finished 3 (1 / 5) a b else b = a)
      (actions (db w)) (actions (db w'))"
proof -
  let ?as = "queued_actions E w"
  have set: "set ?as = {a \<in> set (actions (db w)). action_state a = action_state_value ActionState_QUEUED}"
    by (auto simp: queued_actions_def scan_sets [OF assms(1)])
  have ids: "distinct (map action_id (actions (db w)))" using assms(2) by (rule wf_action_ids)
  have "distinct (map action_id (scan_actions E (actions (db w))))"
    using ids by (simp add: scan_distinct [OF assms(1)])
  then have "distinct (map action_id (filter (\<lambda>a. action_state a = action_state_value ActionState_QUEUED)
      (scan_actions E (actions (db w)))))"
    by (rule distinct_map_filter)
  then have "distinct (map action_id ?as)"
    unfolding queued_actions_def by (metis mset_eq_imp_distinct_iff mset_map mset_sort)
  moreover have "\<forall>a \<in> set ?as. live a \<and> a \<in> set (actions (db w))"
    using set by simp
  ultimately obtain w' where run: "execute_each E 3 (1 / 5) (\<lambda>v. v) ?as w = Some (Inr (), w')"
    "only_executed (db w) (db w')" "same_rest (w'\<lparr>saved := saved w\<rparr>) w" "saved w' = saved w"
    "list_all2 (\<lambda>a b. if a \<in> set ?as then finished 3 (1 / 5) a b else b = a) (actions (db w)) (actions (db w'))"
    using execute_each_rows [of 3 "\<lambda>v. v" w ?as E "1 / 5"] ids by auto
  have "seed_assets_from_events E render [] w = (Inr (), w)"
    by (simp add: seed_assets_from_events_def)
  moreover have "list_all2 (\<lambda>a b. if action_state a = action_state_value ActionState_QUEUED then finished 3 (1 / 5) a b else b = a)
      (actions (db w)) (actions (db w'))"
    using run(5) by (rule list.rel_mono_strong) (auto simp: set split: if_splits)
  ultimately show ?thesis using run by (auto simp: process_contract_events_def same_rest_def)
qed

theorem contract_executes_queue_witness:
  "\<exists>w'. process_contract_events demo_env (\<lambda>_. []) sample_validate True [] demo_world1 =
       Some (Inr (canonical_summary w' no_skips), w') \<and>
     map action_state (actions (db w')) = [action_state_value ActionState_SUCCEEDED] \<and>
     map action_attempts (actions (db w')) = [1] \<and> incidents (db w') = [demo_incident]"
proof -
  have "wf demo_world1" by simp
  from contract_executes_queue [OF demo_env_ok(2) this, of "\<lambda>_. []" sample_validate] show ?thesis
    by (auto simp: list_all2_Cons1 finished_def same_rest_def demo_action_def expected_verdict_def fails_once_def)
qed

end
