(* ===== verification/Workload.thy ===== *)
theory Workload
  imports Retry Json
begin

text \<open>
  The synthetic workload of the benchmarks (\<open>benchmarks/workload.py\<close>), its expected
  counters, and the engine run of \<open>benchmarks/run_python_vs_dotnet.py\<close> on a fresh
  database: seeding, processing every event in a transaction of its own, executing the
  queued actions, and counting.
\<close>

section \<open>Timestamps\<close>

text \<open>\<open>datetime.isoformat\<close> of a UTC instant, given in seconds since 2026-01-01.\<close>

definition pad :: "nat \<Rightarrow> nat \<Rightarrow> string" where
  "pad width n = replicate (width - length (str_nat n)) CHR ''0'' @ str_nat n"

definition leap :: "nat \<Rightarrow> bool" where
  "leap y \<longleftrightarrow> (4 dvd y \<and> \<not> 100 dvd y) \<or> 400 dvd y"

definition month_lengths :: "nat \<Rightarrow> nat list" where
  "month_lengths y = [31, if leap y then 29 else 28, 31, 30, 31, 30, 31, 31, 30, 31, 30, 31]"

function civil_year :: "nat \<Rightarrow> nat \<Rightarrow> nat \<times> nat" where
  "civil_year y d =
     (let n = (if leap y then 366 else 365) in if d < n then (y, d) else civil_year (y + 1) (d - n))"
  by auto

termination
  by (relation "measure snd") (auto split: if_splits)

declare civil_year.simps [simp del]

fun civil_month :: "nat list \<Rightarrow> nat \<Rightarrow> nat \<Rightarrow> nat \<times> nat" where
  "civil_month [] m d = (m, d + 1)"
| "civil_month (n # ns) m d = (if d < n then (m, d + 1) else civil_month ns (m + 1) (d - n))"

definition isoformat :: "nat \<Rightarrow> string" where
  "isoformat t =
     (let (y, yd) = civil_year 2026 (t div 86400); (m, d) = civil_month (month_lengths y) 1 yd; s = t mod 86400
      in pad 4 y @ ''-'' @ pad 2 m @ ''-'' @ pad 2 d @ ''T'' @
         pad 2 (s div 3600) @ '':'' @ pad 2 (s div 60 mod 60) @ '':'' @ pad 2 (s mod 60) @ ''+00:00'')"

section \<open>Events\<close>

record shared_event =
  se_asset_id :: string
  se_source :: string
  se_category :: string
  se_severity :: int
  se_occurred_at :: string
  se_message :: string
  se_executor_mode :: string

definition event_row :: "int \<Rightarrow> nat \<Rightarrow> shared_event" where
  "event_row sd index =
     (let group = index div 20; position = index mod 20; timestamp = isoformat index;
          source = ''synthetic-source-'' @ str_int (sd mod 997);
          asset = (\<lambda>kind. ''SYN-'' @ str_int sd @ ''-'' @ pad 6 group @ kind)
      in if position = 0 then
           \<lparr>se_asset_id = asset ''-critical'', se_source = source, se_category = ''offline'', se_severity = 92,
            se_occurred_at = timestamp, se_message = ''critical synthetic event '' @ str_nat index,
            se_executor_mode = ''success''\<rparr>
         else if position = 1 then
           \<lparr>se_asset_id = asset ''-critical'', se_source = source, se_category = ''offline'', se_severity = 91,
            se_occurred_at = timestamp, se_message = ''cooldown duplicate synthetic event '' @ str_nat index,
            se_executor_mode = ''success''\<rparr>
         else if position = 2 then
           \<lparr>se_asset_id = asset ''-warning'', se_source = source, se_category = ''degraded'', se_severity = 64,
            se_occurred_at = timestamp, se_message = ''warning synthetic event '' @ str_nat index,
            se_executor_mode = ''success''\<rparr>
         else if position = 3 then
           \<lparr>se_asset_id = asset ''-transient'', se_source = source, se_category = ''offline'', se_severity = 93,
            se_occurred_at = timestamp, se_message = ''transient synthetic event '' @ str_nat index,
            se_executor_mode = ''transient_then_success''\<rparr>
         else if position = 4 then
           \<lparr>se_asset_id = asset ''-permanent'', se_source = source, se_category = ''offline'', se_severity = 94,
            se_occurred_at = timestamp, se_message = ''permanent synthetic event '' @ str_nat index,
            se_executor_mode = ''permanent_failure''\<rparr>
         else
           \<lparr>se_asset_id = asset (''-normal-'' @ pad 2 position), se_source = source, se_category = ''heartbeat'',
            se_severity = 15, se_occurred_at = timestamp, se_message = ''normal synthetic event '' @ str_nat index,
            se_executor_mode = ''success''\<rparr>)"

text \<open>The days of a run of years, and the calendar after it.\<close>

fun year_days :: "nat \<Rightarrow> nat \<Rightarrow> nat" where
  "year_days y 0 = 0"
| "year_days y (Suc n) = (if leap y then 366 else 365) + year_days (y + 1) n"

definition leap_years :: "nat \<Rightarrow> int" where
  "leap_years y = int ((y + 3) div 4) - int ((y + 99) div 100) + int ((y + 399) div 400)"

lemma civil_year_after: "civil_year y (year_days y n + d) = civil_year (y + n) d"
proof (induction n arbitrary: y)
  case (Suc n)
  then show ?case by (subst civil_year.simps) (simp add: Let_def)
qed simp

lemma leap_years_next: "leap_years (y + 1) = leap_years y + (if leap y then 1 else 0)"
proof -
  have step: "Suc (y + m) div n = (y + m) div n + (if n dvd y then 1 else 0)" if "Suc m = n" for m n
  proof -
    have "Suc (y + m) mod n = y mod n" using that by (metis add_Suc_right mod_add_self2)
    then show ?thesis by (simp add: div_Suc mod_eq_0_iff_dvd)
  qed
  have coarser: "4 dvd y" if "100 dvd y" using that by (rule dvd_trans [rotated]) simp
  have coarsest: "100 dvd y" if "400 dvd y" using that by (rule dvd_trans [rotated]) simp
  have leap: "leap y \<longleftrightarrow> 4 dvd y \<and> (100 dvd y \<longrightarrow> 400 dvd y)" unfolding leap_def using coarser coarsest by blast
  have steps: "Suc (y + 3) div 4 = (y + 3) div 4 + (if 4 dvd y then 1 else 0)"
    "Suc (y + 99) div 100 = (y + 99) div 100 + (if 100 dvd y then 1 else 0)"
    "Suc (y + 399) div 400 = (y + 399) div 400 + (if 400 dvd y then 1 else 0)"
    by (rule step, simp)+
  have "leap_years (y + 1) =
      int (Suc (y + 3) div 4) - int (Suc (y + 99) div 100) + int (Suc (y + 399) div 400)"
    by (simp only: leap_years_def add_Suc_right add_Suc add_0_right Suc_eq_plus1 ac_simps)
  also have "\<dots> = leap_years y + (if leap y then 1 else 0)"
    unfolding steps leap leap_years_def of_nat_add using coarser coarsest by (cases "4 dvd y"; cases "100 dvd y"; cases "400 dvd y") simp_all
  finally show ?thesis .
qed

lemma year_days_sum: "int (year_days y n) = 365 * int n + leap_years (y + n) - leap_years y"
proof (induction n arbitrary: y)
  case (Suc n)
  then show ?case using leap_years_next [of y] by simp
qed simp

text \<open>
  The timestamp is computed first: an instant after the last second of the year 9999, which is
  \<open>latest_second\<close> seconds after 2026-01-01, is out of the range of \<open>datetime\<close>.
\<close>

definition latest_second :: nat where
  "latest_second = 251635075199"

definition event_at :: "int \<Rightarrow> nat \<Rightarrow> exn + shared_event" where
  "event_at sd index = (if latest_second < index then Inl OverflowError else Inr (event_row sd index))"

definition generate_events :: "nat \<Rightarrow> int \<Rightarrow> exn + shared_event list" where
  "generate_events cnt sd = collect (event_at sd) [0 ..< cnt]"

lemma latest_second_exact: "isoformat latest_second = ''9999-12-31T23:59:59+00:00''"
proof -
  have "int (year_days 2026 7973) = 2912078" unfolding year_days_sum by (simp add: leap_years_def)
  then have "civil_year 2026 2912442 = civil_year 9999 364"
    using civil_year_after [of 2026 7973 364] by simp
  also have "\<dots> = (9999, 364)" by (subst civil_year.simps) (simp add: leap_def)
  finally have "civil_year 2026 2912442 = (9999, 364)" .
  moreover have "map digit_char [1, 2, 3, 5, 9] = ''12359''" by code_simp
  ultimately show ?thesis
    by (simp add: isoformat_def latest_second_def month_lengths_def leap_def pad_def str_nat.simps)
qed

lemma collect_raises:
  assumes "x \<in> set xs" "f x = Inl e" and only: "\<And>y. f y \<in> insert (Inl e) (range Inr)"
  shows "collect f xs = Inl e"
  using assms(1)
proof (induction xs)
  case (Cons y ys)
  show ?case
  proof (cases "f y")
    case (Inl e')
    then show ?thesis using only [of y] by auto
  next
    case (Inr z)
    then have "y \<noteq> x" using assms(2) by auto
    then show ?thesis using Cons Inr by simp
  qed
qed simp

lemma generated_events:
  "generate_events cnt sd =
     (if latest_second + 1 < cnt then Inl OverflowError else Inr (map (event_row sd) [0 ..< cnt]))"
proof (cases "latest_second + 1 < cnt")
  case True
  then have "latest_second + 1 \<in> set [0 ..< cnt]" by simp
  moreover have "event_at sd (latest_second + 1) = Inl OverflowError" by (simp add: event_at_def)
  ultimately have "collect (event_at sd) [0 ..< cnt] = Inl OverflowError"
    by (rule collect_raises) (simp add: event_at_def)
  with True show ?thesis by (simp add: generate_events_def)
next
  case False
  then have "event_at sd j = Inr (event_row sd j)" if "j \<in> set [0 ..< cnt]" for j
    using that by (auto simp: event_at_def)
  from collect_map [of "[0 ..< cnt]" "event_at sd" "\<lambda>j. j" "event_row sd"] this False show ?thesis by (simp add: generate_events_def)
qed

section \<open>Expected counters\<close>

record counters =
  ct_events :: nat
  ct_incidents :: nat
  ct_actions :: nat
  ct_cooldown_suppressions :: nat
  ct_succeeded_actions :: nat
  ct_failed_actions :: nat
  ct_retry_attempts :: nat
  ct_permanent_failures :: nat
  ct_errors :: nat

definition count_index :: "nat \<Rightarrow> counters \<Rightarrow> counters" where
  "count_index index c =
     (let position = index mod 20; when = (\<lambda>P. if position \<in> P then 1 else 0)
      in c\<lparr>ct_incidents := ct_incidents c + when {0, 2, 3, 4},
           ct_actions := ct_actions c + when {0, 3, 4},
           ct_cooldown_suppressions := ct_cooldown_suppressions c + when {1},
           ct_succeeded_actions := ct_succeeded_actions c + when {0, 3},
           ct_failed_actions := ct_failed_actions c + when {4},
           ct_permanent_failures := ct_permanent_failures c + when {4},
           ct_retry_attempts := ct_retry_attempts c + when {3}\<rparr>)"

definition no_counts :: counters where
  "no_counts =
     \<lparr>ct_events = 0, ct_incidents = 0, ct_actions = 0, ct_cooldown_suppressions = 0, ct_succeeded_actions = 0,
      ct_failed_actions = 0, ct_retry_attempts = 0, ct_permanent_failures = 0, ct_errors = 0\<rparr>"

definition expected_counters :: "nat \<Rightarrow> counters" where
  "expected_counters cnt = (fold count_index [0 ..< cnt] no_counts)\<lparr>ct_events := cnt\<rparr>"

section \<open>The engine run\<close>

text \<open>\<open>asset_id[-24:]\<close>\<close>

definition last_chars :: "nat \<Rightarrow> string \<Rightarrow> string" where
  "last_chars n s = drop (length s - n) s"

definition seed_python_database :: "env \<Rightarrow> shared_event list \<Rightarrow> world \<Rightarrow> unit outcome" where
  "seed_python_database E evs w =
     (case for_each (\<lambda>x. add_asset E x (''Synthetic '' @ last_chars 24 x) ''benchmark'' ''unknown'')
             (sort (remdups (map se_asset_id evs))) w of
        (Inl e, w1) \<Rightarrow> (Inl e, w1)
      | (Inr _, w1) \<Rightarrow>
          (case for_each (\<lambda>(name, cat, minsev, ty). add_rule E name cat minsev 5 ty True)
                  [(''Critical synthetic diagnostic'', ''offline'', 80, ''collect_diagnostics''),
                   (''Warning synthetic incident'', ''degraded'', 50, ''none'')] w1 of
             (Inl e, w2) \<Rightarrow> (Inl e, w2)
           | (Inr _, w2) \<Rightarrow> (Inr (), commit w2)))"

definition to_python_payload :: "shared_event \<Rightarrow> exn + event_create" where
  "to_python_payload ev =
     (let p = \<lparr>ec_asset_external_id = se_asset_id ev, ec_source = se_source ev, ec_category = se_category ev,
               ec_severity = se_severity ev, ec_message = se_message ev, ec_executor_mode = se_executor_mode ev,
               ec_idempotency_key = None, ec_correlation_id = None\<rparr>
      in if valid_event_create p then Inr p else Inl (ValidationError ''EventCreate''))"

text \<open>One iteration of the loop over the events: the number of errors and the world.\<close>

definition engine_event :: "env \<Rightarrow> shared_event \<Rightarrow> nat \<times> world \<Rightarrow> nat \<times> world" where
  "engine_event E ev s =
     (case (case to_python_payload ev of Inl e \<Rightarrow> (Inl e, snd s) | Inr p \<Rightarrow> process E p (snd s)) of
        (Inr _, w1) \<Rightarrow> (fst s, commit w1)
      | (Inl _, w1) \<Rightarrow> (fst s + 1, rollback w1))"

definition python_metrics :: "nat \<Rightarrow> database \<Rightarrow> counters" where
  "python_metrics errors d =
     \<lparr>ct_events = length (events d), ct_incidents = length (incidents d), ct_actions = length (actions d),
      ct_cooldown_suppressions = length (filter (\<lambda>l. audit_event_type l = ''event_suppressed'') (audits d)),
      ct_succeeded_actions = length (filter (\<lambda>a. action_state a = action_state_value ActionState_SUCCEEDED) (actions d)),
      ct_failed_actions = length (filter (\<lambda>a. action_state a = action_state_value ActionState_FAILED) (actions d)),
      ct_retry_attempts = nat (sum_list (map (\<lambda>a. max (action_attempts a - 1) 0) (actions d))),
      ct_permanent_failures = length (filter (\<lambda>a. action_state a = action_state_value ActionState_FAILED \<and>
        str_in ''permanent'' (action_detail a)) (actions d)),
      ct_errors = errors\<rparr>"

definition run_python_engine_once :: "env \<Rightarrow> shared_event list \<Rightarrow> world \<Rightarrow> (counters outcome) option" where
  "run_python_engine_once E evs w =
     (case seed_python_database E evs (w\<lparr>db := empty_database, saved := empty_database\<rparr>) of
        (Inl e, w1) \<Rightarrow> Some (Inl e, w1)
      | (Inr _, w1) \<Rightarrow>
          let (errors, w2) = fold (engine_event E) evs (0, w1);
              queued = filter (\<lambda>a. action_state a = action_state_value ActionState_QUEUED) (scan_actions E (actions (db w2)))
          in case execute_each E 3 (1 / 1000) commit queued w2 of
               None \<Rightarrow> None
             | Some (Inl e, w3) \<Rightarrow> Some (Inl e, w3)
             | Some (Inr _, w3) \<Rightarrow> Some (Inr (python_metrics errors (db w3)), w3))"

section \<open>Expected counters in closed form\<close>

definition positions :: "nat set \<Rightarrow> nat \<Rightarrow> nat list" where
  "positions P cnt = filter (\<lambda>j. j mod 20 \<in> P) [0 ..< cnt]"

lemma length_positions_Suc:
  "length (positions P (Suc k)) = length (positions P k) + (if k mod 20 \<in> P then 1 else 0)"
  by (simp add: positions_def)

lemma expected_counters_positions:
  "expected_counters cnt =
     \<lparr>ct_events = cnt, ct_incidents = length (positions {0, 2, 3, 4} cnt),
      ct_actions = length (positions {0, 3, 4} cnt), ct_cooldown_suppressions = length (positions {1} cnt),
      ct_succeeded_actions = length (positions {0, 3} cnt), ct_failed_actions = length (positions {4} cnt),
      ct_retry_attempts = length (positions {3} cnt), ct_permanent_failures = length (positions {4} cnt),
      ct_errors = 0\<rparr>"
proof (induction cnt)
  case 0
  then show ?case by (simp add: expected_counters_def no_counts_def positions_def)
next
  case (Suc k)
  have "expected_counters (Suc k) = (count_index k (expected_counters k))\<lparr>ct_events := Suc k\<rparr>"
    unfolding expected_counters_def by (simp add: count_index_def Let_def del: insert_iff singleton_iff)
  then show ?case
    unfolding Suc.IH length_positions_Suc by (simp add: count_index_def Let_def del: insert_iff singleton_iff)
qed

end
