(* ===== verification/Fixtures.thy ===== *)
theory Fixtures
  imports Contract Workload
begin

text \<open>
  The files the benchmarks exchange: the event fixtures that \<open>benchmarks/workload.py\<close> writes
  and reads (\<open>write_jsonl\<close>, \<open>read_jsonl\<close>), and the workload files of
  \<open>benchmarks/generate_workloads.py\<close> with the counts of their manifest. Python's random
  generator is a parameter: a state, a way to seed it, and \<open>randint\<close>.
\<close>

section \<open>Event fixtures\<close>

text \<open>\<open>dataclasses.asdict\<close>\<close>

definition asdict :: "shared_event \<Rightarrow> (string \<times> json) list" where
  "asdict ev =
     [(''asset_id'', JString (se_asset_id ev)), (''source'', JString (se_source ev)),
      (''category'', JString (se_category ev)), (''severity'', JInt (se_severity ev)),
      (''occurred_at'', JString (se_occurred_at ev)), (''message'', JString (se_message ev)),
      (''executor_mode'', JString (se_executor_mode ev))]"

definition write_jsonl :: "shared_event list \<Rightarrow> string" where
  "write_jsonl evs = concat (map (\<lambda>ev. dumps '','' '':'' (JObject (asdict ev)) @ [char_of (10 :: nat)]) evs)"

text \<open>
  \<open>SharedEvent(**row)\<close>: the row must be a dictionary with exactly the fields of the class;
  a dataclass does not check the types of its values, so the object is the list of its
  fields and values.
\<close>

definition event_fields_of :: "string list" where
  "event_fields_of =
     [''asset_id'', ''source'', ''category'', ''severity'', ''occurred_at'', ''message'', ''executor_mode'']"

definition shared_event_of :: "json \<Rightarrow> exn + (string \<times> json) list" where
  "shared_event_of row =
     (case row of
        JObject kvs \<Rightarrow>
          if set (map fst kvs) = set event_fields_of
          then Inr (map (\<lambda>f. (f, the (map_of kvs f))) event_fields_of)
          else Inl (OtherError ''TypeError'')
      | _ \<Rightarrow> Inl (OtherError ''TypeError''))"

fun read_lines :: "int option \<Rightarrow> (string \<times> json) list list \<Rightarrow> string list \<Rightarrow> exn + (string \<times> json) list list" where
  "read_lines cnt evs [] = Inr evs"
| "read_lines cnt evs (line # lines) =
     (if \<exists>c \<in> set_option cnt. c \<le> int (length evs) then Inr evs
      else case loads line of
             Inl e \<Rightarrow> Inl e
           | Inr row \<Rightarrow>
               (case shared_event_of row of
                  Inl e \<Rightarrow> Inl e
                | Inr ev \<Rightarrow> read_lines cnt (evs @ [ev]) lines))"

definition read_jsonl :: "string \<Rightarrow> int option \<Rightarrow> exn + (string \<times> json) list list" where
  "read_jsonl content cnt = read_lines cnt [] (lines_of content)"

text \<open>What a reader keeps of a file.\<close>

definition limited :: "int option \<Rightarrow> 'a list \<Rightarrow> 'a list" where
  "limited cnt xs = (case cnt of None \<Rightarrow> xs | Some c \<Rightarrow> take (nat c) xs)"

lemma event_of_asdict: "shared_event_of (JObject (asdict ev)) = Inr (asdict ev)"
  by (auto simp: shared_event_of_def asdict_def event_fields_of_def)

lemma plain_asdict: "plain (JObject (asdict ev))"
  by (simp add: asdict_def)

abbreviation event_line :: "shared_event \<Rightarrow> string" where
  "event_line ev \<equiv> dumps '','' '':'' (JObject (asdict ev))"

lemma lines_of_jsonl: "lines_of (write_jsonl evs) = map (\<lambda>ev. event_line ev @ [char_of (10 :: nat)]) evs"
proof -
  have "printable (event_line ev)" for ev
    by (intro dumps_printable plain_asdict) (simp_all add: Json.code_def)
  then have "\<forall>l \<in> set (map event_line evs). unbroken l" by (auto intro: printable_unbroken)
  from lines_of_written [OF this] show ?thesis by (simp add: write_jsonl_def comp_def)
qed

lemma read_written_lines:
  "read_lines cnt acc (map (\<lambda>ev. event_line ev @ [char_of (10 :: nat)]) evs) =
     Inr (acc @ map asdict (limited (map_option (\<lambda>c. c - int (length acc)) cnt) evs))"
proof (induction evs arbitrary: acc)
  case Nil
  then show ?case by (simp add: limited_def split: option.split)
next
  case (Cons ev evs)
  have "loads (event_line ev @ [char_of (10 :: nat)]) = Inr (JObject (asdict ev))"
    by (rule loads_dumps [OF compact_separators plain_asdict]) simp
  moreover have "nat (1 + int (length acc)) = Suc (length acc)" by simp
  ultimately show ?case
    using Cons.IH [of "acc @ [asdict ev]"] event_of_asdict [of ev]
    by (cases cnt) (auto simp: limited_def take_Cons' nat_diff_distrib split: if_splits)
qed

text \<open>
  C36. A fixture is read back as it was written: whatever strings the events contain,
  \<open>read_jsonl\<close> returns the fields of exactly the first \<open>count\<close> events (all of them without
  a count, none for a count that is not positive).
\<close>

theorem fixture_roundtrip: "read_jsonl (write_jsonl evs) cnt = Inr (map asdict (limited cnt evs))"
  using read_written_lines [of cnt "[]" evs] by (simp add: read_jsonl_def lines_of_jsonl option.map_ident)

section \<open>Generated workloads\<close>

definition categories :: "string list" where
  "categories = [''offline'', ''battery_low'', ''latency'', ''temperature'', ''sync_delay'']"

definition sources :: "string list" where
  "sources = [''north-gateway'', ''warehouse'', ''edge-agent'', ''lab-rig'', ''support-simulator'']"

definition executor_modes :: "string list" where
  "executor_modes = [''success'', ''success'', ''success'', ''transient_failure'', ''permanent_failure'']"

text \<open>\<open>str.replace\<close> with a non-empty pattern.\<close>

function str_replace :: "string \<Rightarrow> string \<Rightarrow> string \<Rightarrow> string" where
  "str_replace old new s =
     (if s = [] \<or> old = [] then s
      else if take (length old) s = old then new @ str_replace old new (drop (length old) s)
      else hd s # str_replace old new (tl s))"
  by auto

termination
  by (relation "measure (\<lambda>(_, _, s). length s)") auto

declare str_replace.simps [simp del]

type_synonym 'r randint = "int \<Rightarrow> int \<Rightarrow> 'r \<Rightarrow> int \<times> 'r"

definition roll_severity :: "'r randint \<Rightarrow> nat \<Rightarrow> 'r \<Rightarrow> int \<times> 'r" where
  "roll_severity randint index =
     (let severity_roll = index mod 10
      in if severity_roll \<in> {0, 1} then randint 10 45
         else if severity_roll \<in> {2, 3, 4} then randint 50 79
         else randint 80 99)"

text \<open>
  The sizes generated are those of \<open>SIZES\<close>, at most 100,000: the last timestamp, 17 seconds
  per event after 2026-01-01, is far from the year 9999, where \<open>datetime\<close> ends.
\<close>

definition build_event :: "'r randint \<Rightarrow> nat \<Rightarrow> 'r \<Rightarrow> json \<times> 'r" where
  "build_event randint index rng =
     (let (severity, r1) = roll_severity randint index rng;
          (shift, r2) = randint 0 3 r1;
          category = categories ! nat ((int index + shift) mod 5);
          (asset, r3) = randint 1 120 r2;
          (mode, r4) = randint 0 4 r3
      in (JObject
            [(''asset_id'', JString (''ASSET-'' @ pad 4 (nat asset))),
             (''source'', JString (sources ! (index mod 5))),
             (''category'', JString category),
             (''severity'', JInt severity),
             (''occurred_at'', JString (str_replace ''+00:00'' ''Z'' (isoformat (index * 17)))),
             (''message'', JString (''Synthetic '' @ category @ '' event #'' @ str_nat index)),
             (''executor_mode'', JString (executor_modes ! nat ((int index + mode) mod 5)))], r4))"

record workload_entry =
  we_file :: string
  we_events :: nat
  we_normal :: nat
  we_warning :: nat
  we_critical :: nat

definition row_severity :: "json \<Rightarrow> int" where
  "row_severity row =
     (case row of
        JObject kvs \<Rightarrow> (case map_of kvs ''severity'' of Some (JInt i) \<Rightarrow> i | _ \<Rightarrow> 0)
      | _ \<Rightarrow> 0)"

definition tally :: "int \<Rightarrow> workload_entry \<Rightarrow> workload_entry" where
  "tally severity m =
     (if severity < 50 then m\<lparr>we_normal := we_normal m + 1\<rparr>
      else if severity < 80 then m\<lparr>we_warning := we_warning m + 1\<rparr>
      else m\<lparr>we_critical := we_critical m + 1\<rparr>)"

text \<open>
  \<open>str(path.relative_to(ROOT))\<close>: the name of the file with the separator of the platform.
\<close>

definition workload_file :: "string \<Rightarrow> nat \<Rightarrow> string" where
  "workload_file sep sz =
     ''specification'' @ sep @ ''workloads'' @ sep @ ''workload_'' @ str_nat sz @ ''.jsonl''"

text \<open>One turn of the loop: the generator, the manifest entry and the text so far.\<close>

definition write_row :: "'r randint \<Rightarrow> nat \<Rightarrow> 'r \<times> workload_entry \<times> string \<Rightarrow> 'r \<times> workload_entry \<times> string" where
  "write_row randint index st =
     (case st of (rng, m, out) \<Rightarrow>
        let (row, rng1) = build_event randint index rng
        in (rng1, tally (row_severity row) m, out @ workload_line row))"

definition write_workload :: "string \<Rightarrow> 'r randint \<Rightarrow> (int \<Rightarrow> 'r) \<Rightarrow> nat \<Rightarrow> workload_entry \<times> string" where
  "write_workload sep randint seeded sz =
     snd (fold (write_row randint) [0 ..< sz]
       (seeded (20260820 + int sz),
        \<lparr>we_file = workload_file sep sz, we_events = sz,
         we_normal = 0, we_warning = 0, we_critical = 0\<rparr>, []))"

text \<open>The documented range of \<open>random.Random.randint\<close>.\<close>

definition randint_ok :: "'r randint \<Rightarrow> bool" where
  "randint_ok randint \<longleftrightarrow> (\<forall>lo hi r. lo \<le> hi \<longrightarrow> fst (randint lo hi r) \<in> {lo .. hi})"

definition manifest_for :: "string \<Rightarrow> nat \<Rightarrow> json list \<Rightarrow> workload_entry" where
  "manifest_for sep sz rows =
     \<lparr>we_file = workload_file sep sz, we_events = sz,
      we_normal = length (filter (\<lambda>row. row_severity row < 50) rows),
      we_warning = length (filter (\<lambda>row. 50 \<le> row_severity row \<and> row_severity row < 80) rows),
      we_critical = length (filter (\<lambda>row. 80 \<le> row_severity row) rows)\<rparr>"

text \<open>The band of a row depends on its index only.\<close>

lemma roll_severity_bands:
  "roll_severity randint j =
     (if j mod 10 < 2 then randint 10 45 else if j mod 10 < 5 then randint 50 79 else randint 80 99)"
proof -
  have "x \<in> {0, 1} \<longleftrightarrow> x < 2" "x \<in> {2, 3, 4} \<longleftrightarrow> 2 \<le> x \<and> x < 5" for x :: nat by auto
  then show ?thesis unfolding roll_severity_def Let_def by simp
qed

lemma roll_severity_band:
  assumes "randint_ok randint"
  shows "fst (roll_severity randint j r) < 50 \<longleftrightarrow> j mod 10 < 2"
    "fst (roll_severity randint j r) < 80 \<longleftrightarrow> j mod 10 < 5"
proof -
  have range: "fst (randint lo hi r) \<in> {lo .. hi}" if "lo \<le> hi" for lo hi
    using assms that by (simp add: randint_ok_def)
  show "fst (roll_severity randint j r) < 50 \<longleftrightarrow> j mod 10 < 2"
    using range [of 10 45] range [of 50 79] range [of 80 99] by (simp add: roll_severity_bands)
  show "fst (roll_severity randint j r) < 80 \<longleftrightarrow> j mod 10 < 5"
    using range [of 10 45] range [of 50 79] range [of 80 99] by (simp add: roll_severity_bands)
qed

lemma build_event_row:
  "\<exists>kvs r'. build_event randint j r = (JObject kvs, r') \<and> plain (JObject kvs) \<and>
     row_severity (JObject kvs) = fst (roll_severity randint j r)"
  by (simp add: build_event_def split_beta Let_def row_severity_def)

lemma row_severity_sorted: "plain row \<Longrightarrow> row_severity (sort_keys row) = row_severity row"
proof (cases row)
  case (JObject kvs)
  assume "plain row"
  then have "distinct (map fst (map (\<lambda>x. (fst x, sort_keys (snd x))) kvs))" using JObject by (simp add: comp_def)
  from map_of_sort_key [OF this]
  have "map_of (sort_key fst (map (\<lambda>x. (fst x, sort_keys (snd x))) kvs)) ''severity'' =
      map_option sort_keys (map_of kvs ''severity'')"
    using map_of_map [of sort_keys kvs] by (simp add: case_prod_beta')
  then show ?thesis using JObject
    by (auto simp: row_severity_def split: option.split json.split)
qed (simp_all add: row_severity_def)

text \<open>After \<open>k\<close> turns: the file has \<open>k\<close> rows and the manifest counts them by severity.\<close>

definition banded :: "nat \<Rightarrow> json \<Rightarrow> bool" where
  "banded j row \<longleftrightarrow> (row_severity row < 50 \<longleftrightarrow> j mod 10 < 2) \<and> (row_severity row < 80 \<longleftrightarrow> j mod 10 < 5)"

lemma generated:
  assumes "randint_ok randint"
  shows "\<exists>r rows. fold (write_row randint) [0 ..< k] (r0, manifest_for sep sz [], []) = (r, manifest_for sep sz rows, workload_text rows) \<and>
    (\<forall>row \<in> set rows. plain row \<and> (\<exists>kvs. row = JObject kvs)) \<and> list_all2 banded [0 ..< k] rows"
proof (induction k)
  case 0
  then show ?case by (simp add: workload_text_def)
next
  case (Suc k)
  then obtain r rows where IH:
    "fold (write_row randint) [0 ..< k] (r0, manifest_for sep sz [], []) = (r, manifest_for sep sz rows, workload_text rows)"
    "\<forall>row \<in> set rows. plain row \<and> (\<exists>kvs. row = JObject kvs)" "list_all2 banded [0 ..< k] rows"
    by blast
  obtain kvs r' where row: "build_event randint k r = (JObject kvs, r')" "plain (JObject kvs)"
    "row_severity (JObject kvs) = fst (roll_severity randint k r)"
    using build_event_row [of randint k r] by (elim exE conjE) (rule that)
  have "banded k (JObject kvs)" using roll_severity_band [OF assms] row(3) by (simp add: banded_def)
  then have "list_all2 banded [0 ..< Suc k] (rows @ [JObject kvs])" using IH(3) by (simp add: list_all2_appendI)
  moreover have "tally (row_severity (JObject kvs)) (manifest_for sep sz rows) = manifest_for sep sz (rows @ [JObject kvs])"
    by (simp add: tally_def manifest_for_def)
  then have "write_row randint k (r, manifest_for sep sz rows, workload_text rows) =
      (r', manifest_for sep sz (rows @ [JObject kvs]), workload_text (rows @ [JObject kvs]))"
    by (simp add: write_row_def row(1) workload_text_def)
  then have "fold (write_row randint) [0 ..< Suc k] (r0, manifest_for sep sz [], []) =
      (r', manifest_for sep sz (rows @ [JObject kvs]), workload_text (rows @ [JObject kvs]))"
    using IH(1) by simp
  moreover have "\<forall>row \<in> set (rows @ [JObject kvs]). plain row \<and> (\<exists>kvs. row = JObject kvs)"
    using IH(2) row(2) by simp
  ultimately show ?case by blast
qed

lemma count_below:
  assumes "b \<le> 10"
  shows "length (filter (\<lambda>j. j mod 10 < b) [0 ..< k]) = b * (k div 10) + min (k mod 10) b"
proof (induction k)
  case 0
  then show ?case by simp
next
  case (Suc k)
  have "k mod 10 < 10" by simp
  with Suc assms show ?case by (simp add: mod_Suc div_Suc)
qed

lemma banded_counts:
  assumes "list_all2 banded js rows"
  shows "length (filter (\<lambda>row. row_severity row < 50) rows) = length (filter (\<lambda>j. j mod 10 < 2) js)"
    "length (filter (\<lambda>row. row_severity row < 80) rows) = length (filter (\<lambda>j. j mod 10 < 5) js)"
  using assms by (induction rule: list_all2_induct) (simp_all add: banded_def)

lemma severity_partition:
  "length (filter (\<lambda>row. row_severity row < 50) rows) +
     length (filter (\<lambda>row. 50 \<le> row_severity row \<and> row_severity row < 80) rows) =
     length (filter (\<lambda>row. row_severity row < 80) rows)"
  "length (filter (\<lambda>row. row_severity row < 80) rows) + length (filter (\<lambda>row. 80 \<le> row_severity row) rows) = length rows"
  by (induction rows) auto

text \<open>
  C35. The manifest of a generated workload is exact: whatever the random generator draws
  within the ranges asked for and whatever separates the parts of a path, the file is loaded by \<open>load_workload\<close> as \<open>events\<close> rows, the
  entry counts these rows by their severity, and the counts depend on the number of rows
  only: two normal, three warning and five critical rows in every ten.
\<close>

theorem manifest_exact:
  assumes "randint_ok randint" "write_workload sep randint seeded sz = (entry, content)"
  shows "\<exists>rows. load_workload content = Inr rows \<and> length rows = sz \<and> entry = manifest_for sep sz rows \<and>
    we_normal entry = 2 * (sz div 10) + min (sz mod 10) 2 \<and>
    we_normal entry + we_warning entry = 5 * (sz div 10) + min (sz mod 10) 5 \<and>
    we_normal entry + we_warning entry + we_critical entry = sz"
proof -
  obtain r rows where gen: "fold (write_row randint) [0 ..< sz] (seeded (20260820 + int sz), manifest_for sep sz [], []) =
      (r, manifest_for sep sz rows, workload_text rows)"
    "\<forall>row \<in> set rows. plain row \<and> (\<exists>kvs. row = JObject kvs)" "list_all2 banded [0 ..< sz] rows"
    using generated [OF assms(1)] by blast
  have out: "entry = manifest_for sep sz rows" "content = workload_text rows"
    using assms(2) gen(1) by (simp_all add: write_workload_def manifest_for_def)
  have loaded: "load_workload content = Inr (map sort_keys rows)"
    unfolding out by (rule load_written [OF gen(2)])
  have "length (filter (\<lambda>row. P (row_severity row)) (map sort_keys rows)) = length (filter (\<lambda>row. P (row_severity row)) rows)"
    for P
    using gen(2) by (simp add: filter_map comp_def row_severity_sorted cong: filter_cong)
  from this [of "\<lambda>x. x < 50"] this [of "\<lambda>x. 50 \<le> x \<and> x < 80"] this [of "\<lambda>x. 80 \<le> x"]
  have "manifest_for sep sz (map sort_keys rows) = manifest_for sep sz rows" by (simp only: manifest_for_def)
  moreover have "length rows = sz" using list_all2_lengthD [OF gen(3)] by simp
  ultimately show ?thesis
    using loaded out banded_counts [OF gen(3)] severity_partition [of rows] count_below [of 2 sz] count_below [of 5 sz]
    by (intro exI [of _ "map sort_keys rows"]) (simp add: manifest_for_def)
qed

text \<open>A generator that always draws the lower bound.\<close>

theorem manifest_exact_witness:
  "\<exists>entry content rows. write_workload ''/'' (\<lambda>lo hi r. (lo, r)) (\<lambda>n. n) 100 = (entry, content) \<and>
     load_workload content = Inr rows \<and> length rows = 100 \<and>
     we_normal entry = 20 \<and> we_warning entry = 30 \<and> we_critical entry = 50"
proof -
  have ok: "randint_ok (\<lambda>lo hi r. (lo, r))" by (simp add: randint_ok_def)
  obtain entry content where run: "write_workload ''/'' (\<lambda>lo hi r. (lo, r)) (\<lambda>n. n) 100 = (entry, content)" by fastforce
  from manifest_exact [OF ok run] run show ?thesis by auto
qed

end
