(* ===== verification/Cli.thy ===== *)
theory Cli
  imports Retry
begin

text \<open>
  \<open>cli.py\<close> (and \<open>examples/run_demo.py\<close>, which prints its result): the demo run on a fresh
  in-memory database, from seeding to the executed action, and the result it reports.
\<close>

section \<open>The run\<close>

record demo_report =
  dr_assets :: int
  dr_incidents :: int
  dr_actions :: int
  dr_action_state :: "string option"

text \<open>\<open>create_session_factory("sqlite:///:memory:")\<close>: a database of its own, empty.\<close>

definition memory_session :: "world \<Rightarrow> world" where
  "memory_session w = w\<lparr>db := empty_database, saved := empty_database\<rparr>"

text \<open>\<open>if action: execute_action_with_retry(session, action)\<close>\<close>

definition execute_if :: "env \<Rightarrow> action option \<Rightarrow> world \<Rightarrow> (action option outcome) option" where
  "execute_if E act w =
     (case act of
        None \<Rightarrow> Some (Inr None, w)
      | Some a \<Rightarrow>
          map_option (\<lambda>(x, w1). (map_sum id Some x, w1))
            (execute_action_with_retry E 3 (1 / 5) default_transport a w))"

definition report_of :: "world \<Rightarrow> incident option \<Rightarrow> action option \<Rightarrow> demo_report" where
  "report_of w i act =
     \<lparr>dr_assets = int (length (assets (db w))), dr_incidents = (if i = None then 0 else 1),
      dr_actions = (if act = None then 0 else 1), dr_action_state = map_option action_state act\<rparr>"

definition run_demo :: "env \<Rightarrow> world \<Rightarrow> (demo_report outcome) option" where
  "run_demo E w =
     (case seed_demo_data E (memory_session w) of
        (Inl e, w1) \<Rightarrow> Some (Inl e, close_session w1)
      | (Inr _, w1) \<Rightarrow>
          (case process E demo_payload w1 of
             (Inl e, w2) \<Rightarrow> Some (Inl e, close_session w2)
           | (Inr (_, incident, action, _, _), w2) \<Rightarrow>
               (case execute_if E action w2 of
                  None \<Rightarrow> None
                | Some (Inl e, w3) \<Rightarrow> Some (Inl e, close_session w3)
                | Some (Inr act, w3) \<Rightarrow>
                    let w4 = commit w3 in Some (Inr (report_of w4 incident act), close_session w4))))"

section \<open>Its result\<close>

text \<open>Seeding an empty database, whatever primary keys the engine chooses.\<close>

lemma seed_fresh:
  assumes "db w = empty_database"
  obtains w' where "seed_demo_data E w = (Inr (), w')" "saved w' = db w'"
    "map asset_external_id (assets (db w')) = [''PUMP-101'', ''GATEWAY-7'', ''SENSOR-44'']"
    "map (\<lambda>r. (rule_category r, rule_minimum_severity r, rule_cooldown_minutes r, rule_action_type r, rule_enabled r))
       (rules (db w')) = [(''offline'', 70, 20, ''create_ticket'', True), (''battery_low'', 80, 60, ''notify_owner'', True)]"
    "incidents (db w') = []" "actions (db w') = []" "events (db w') = []" "audits (db w') = []"
  using assms that
  by (simp add: seed_demo_data_def demo_assets_def demo_rules_def add_asset_def add_rule_def commit_def Let_def)

text \<open>The demo event on the seeded database: the offline rule fires and the queue has room.\<close>

lemma demo_event_opens:
  assumes "scans_ok E" "0 < max_queue_backlog (cfg E)"
    and "map asset_external_id (assets (db w)) = [''PUMP-101'', ''GATEWAY-7'', ''SENSOR-44'']"
    and "map (\<lambda>r. (rule_category r, rule_minimum_severity r, rule_cooldown_minutes r, rule_action_type r, rule_enabled r))
       (rules (db w)) = [(''offline'', 70, 20, ''create_ticket'', True), (''battery_low'', 80, 60, ''notify_owner'', True)]"
    and "incidents (db w) = []" "actions (db w) = []"
  obtains e i a w' where "process E demo_payload w = (Inr (e, Some i, Some a, None, False), w')"
    "action_state a = action_state_value ActionState_QUEUED" "action_attempts a = 0"
    "action_action_type a = ''create_ticket''" "action_detail a = ''success''"
    "actions (db w') = [a]" "incidents (db w') = [i]" "length (assets (db w')) = 3"
proof -
  obtain x where found: "find_asset (ec_asset_external_id demo_payload) w = Some x"
    using assms(3) by (auto simp: find_asset_def demo_payload_def map_eq_Cons_conv)
  obtain e w1 where rec: "record_event E demo_payload x w = (e, w1)" by fastforce
  note facts = record_event_eqD [OF rec]
  have offline: "\<exists>r \<in> set (rules (db w1)). rule_justifies r e"
    "\<forall>r \<in> set (rules (db w1)). rule_justifies r e \<longrightarrow> rule_action_type r = ''create_ticket''"
    using assms(4) facts by (auto simp: rule_justifies_def demo_payload_def map_eq_Cons_conv)
  then obtain r where r: "match E e w1 = Some r" "rule_action_type r = ''create_ticket''"
    using match_None_iff [OF assms(1), of e w1] match_SomeD [OF assms(1), of e w1]
    by (cases "match E e w1") auto
  have cool: "\<not> fst (in_cooldown E x (rule_cooldown_minutes r) w1)"
    using assms(5) facts by (simp add: in_cooldown_iff recent_unresolved_def)
  have len: "length (assets (db w1)) = 3"
    using record_event_frame(2) [of E demo_payload x w] rec assms(3) by (auto simp: map_eq_Cons_conv)
  have "queue_backlog (db (snd (add_incident E aid rid eid st su (snd (in_cooldown E x (rule_cooldown_minutes r) w1))))) = 0"
    for aid rid eid st su
    using facts(3) assms(6) by (simp add: queue_backlog_def)
  then obtain i a w' where opened:
    "open_incident E demo_payload x r e (snd (in_cooldown E x (rule_cooldown_minutes r) w1)) = ((e, Some i, Some a, None), w')"
    "action_state a = action_state_value ActionState_QUEUED" "action_attempts a = 0"
    "action_action_type a = ''create_ticket''" "action_detail a = ''success''"
    "actions (db w') = [a]" "incidents (db w') = [i]" "length (assets (db w')) = 3"
    using r(2) assms(2,5,6) facts len that
    by (simp add: open_incident_def Let_def split_beta demo_payload_def)
  have "process E demo_payload w = (Inr (e, Some i, Some a, None, False), w')"
    using process_new_opened [OF found rec r(1) cool] opened(1)
    by (simp add: process_def demo_payload_def truthy_def)
  with opened that show thesis by blast
qed

text \<open>
  C38. The demo run returns, for every choice of primary keys, scan order, clock and
  identifiers, whenever the queue limit is positive: it reports three assets, one incident
  and one action in state \<open>succeeded\<close>, and what it reports is committed.
\<close>

theorem demo_run_succeeds:
  assumes "scans_ok E" "0 < max_queue_backlog (cfg E)"
  shows "\<exists>w'. run_demo E w =
      Some (Inr \<lparr>dr_assets = 3, dr_incidents = 1, dr_actions = 1, dr_action_state = Some ''succeeded''\<rparr>, w') \<and>
    db w' = saved w' \<and> length (incidents (db w')) = 1 \<and>
    map (\<lambda>a. (action_action_type a, action_state a, action_attempts a)) (actions (db w')) =
      [(''create_ticket'', ''succeeded'', 1)]"
proof -
  have "db (memory_session w) = empty_database" by (simp add: memory_session_def)
  then obtain w1 where seed: "seed_demo_data E (memory_session w) = (Inr (), w1)" "saved w1 = db w1"
    "map asset_external_id (assets (db w1)) = [''PUMP-101'', ''GATEWAY-7'', ''SENSOR-44'']"
    "map (\<lambda>r. (rule_category r, rule_minimum_severity r, rule_cooldown_minutes r, rule_action_type r, rule_enabled r))
       (rules (db w1)) = [(''offline'', 70, 20, ''create_ticket'', True), (''battery_low'', 80, 60, ''notify_owner'', True)]"
    "incidents (db w1) = []" "actions (db w1) = []"
    by (rule seed_fresh) (erule that; assumption)
  obtain e i a w2 where opened: "process E demo_payload w1 = (Inr (e, Some i, Some a, None, False), w2)"
    "action_state a = action_state_value ActionState_QUEUED" "action_attempts a = 0"
    "action_action_type a = ''create_ticket''" "action_detail a = ''success''"
    "actions (db w2) = [a]" "incidents (db w2) = [i]" "length (assets (db w2)) = 3"
    by (rule demo_event_opens [OF assms seed(3-6)])
  obtain b w3 where ret: "execute_action_with_retry E 3 (1 / 5) default_transport a w2 = Some (Inr b, w3)"
    "finished 3 (1 / 5) a b" "same_rest w2 w3" "actions (db w3) = put_row action_id b (actions (db w2))"
    using execute_one [of 3 a w2 E "1 / 5"] opened by auto
  have b: "action_state b = ''succeeded''" "action_attempts b = 1" "action_id b = action_id a"
    "action_action_type b = ''create_ticket''"
    using ret(2) opened by (auto simp: finished_def expected_verdict_def fails_once_def state_values)
  have ex: "execute_if E (Some a) w2 = Some (Inr (Some b), w3)" by (simp add: execute_if_def ret(1))
  let ?w = "close_session (commit w3)"
  have run: "run_demo E w = Some (Inr (report_of (commit w3) (Some i) (Some b)), ?w)"
    using seed(1) opened(1) ex by (simp add: run_demo_def Let_def)
  have "assets (db w3) = assets (db w2)" "incidents (db w3) = incidents (db w2)"
    using ret(3) by (simp_all add: same_rest_def)
  moreover have "actions (db w3) = [b]" using ret(4) opened(6) b(3) by simp
  ultimately show ?thesis
    using b opened(7,8) by (intro exI [of _ ?w] conjI, subst run) (simp_all add: report_of_def close_session_def)
qed

theorem demo_run_succeeds_witness:
  "\<exists>w'. run_demo demo_env empty_world =
      Some (Inr \<lparr>dr_assets = 3, dr_incidents = 1, dr_actions = 1, dr_action_state = Some ''succeeded''\<rparr>, w') \<and>
    length (incidents (db w')) = 1"
  using demo_run_succeeds [OF demo_env_ok(2), of empty_world] by (auto simp: default_settings_def)

end
