(* ===== verification/Engine.thy ===== *)
theory Engine
  imports Database
begin

text \<open>
  The settings a process keeps (\<open>core/settings.py\<close>) and the start-up half of
  \<open>core/database.py\<close>: how \<open>build_engine\<close> configures the engine for a
  database URL, and \<open>create_session_factory\<close>, which creates the missing tables of
  \<open>models.py\<close> and then migrates the schema. SQLAlchemy's engine itself is represented
  by its configuration.
\<close>

section \<open>Settings\<close>

text \<open>
  \<open>get_settings\<close> is \<open>Settings()\<close> behind \<open>lru_cache\<close>: the first result is kept until the cache
  is cleared, an exception is not. \<open>loaded\<close> is what pydantic-settings makes of the
  environment at the time of the call.
\<close>

definition get_settings :: "exn + settings \<Rightarrow> settings option \<Rightarrow> (exn + settings) \<times> settings option" where
  "get_settings loaded cache =
     (case cache of
        Some s \<Rightarrow> (Inr s, cache)
      | None \<Rightarrow> (case loaded of Inl e \<Rightarrow> (Inl e, None) | Inr s \<Rightarrow> (Inr s, Some s)))"

text \<open>
  A process that once obtained its settings keeps them, whatever the environment becomes:
  the operations of the model take them as a constant of the environment.
\<close>

lemma settings_read_once:
  assumes "get_settings loaded cache = (Inr s, cache')"
  shows "get_settings loaded' cache' = (Inr s, cache')"
  using assms by (auto simp: get_settings_def split: option.splits sum.splits)

section \<open>Engine configuration\<close>

record engine_config =
  engine_url :: string
  check_same_thread :: "bool option"
  static_pool :: bool
  connect_pragmas :: "string list"

definition is_sqlite :: "string \<Rightarrow> bool" where
  "is_sqlite url \<longleftrightarrow> take 6 url = ''sqlite''"

definition build_engine :: "settings \<Rightarrow> string option \<Rightarrow> engine_config" where
  "build_engine s url_arg =
     (let url = (if truthy url_arg then the url_arg else database_url s)
      in \<lparr>engine_url = url,
          check_same_thread = (if is_sqlite url then Some False else None),
          static_pool = (url = ''sqlite:///:memory:''),
          connect_pragmas =
            (if is_sqlite url \<and> sqlite_mode s = ''wal''
             then [''busy_timeout=30000'', ''journal_mode=WAL'', ''synchronous=NORMAL'', ''temp_store=MEMORY'']
             else if is_sqlite url then [''busy_timeout=30000''] else [])\<rparr>)"

section \<open>Tables and start-up\<close>

text \<open>\<open>Base.metadata\<close>: the tables of \<open>models.py\<close> with their columns.\<close>

definition model_columns :: "string \<Rightarrow> string list option" where
  "model_columns = map_of
     [(''assets'', [''id'', ''external_id'', ''name'', ''group'', ''status'']),
      (''automation_rules'', [''id'', ''name'', ''category'', ''minimum_severity'', ''cooldown_minutes'',
         ''action_type'', ''enabled'']),
      (''operational_events'', [''id'', ''asset_id'', ''source'', ''category'', ''severity'', ''message'',
         ''correlation_id'', ''created_at'']),
      (''incidents'', [''id'', ''asset_id'', ''rule_id'', ''event_id'', ''state'', ''summary'', ''created_at'',
         ''updated_at'']),
      (''actions'', [''id'', ''incident_id'', ''action_type'', ''state'', ''attempts'', ''detail'',
         ''next_attempt_at'', ''lease_id'', ''leased_at'', ''created_at'', ''updated_at'']),
      (''audit_logs'', [''id'', ''event_type'', ''entity_type'', ''entity_id'', ''message'', ''created_at'']),
      (''idempotency_records'', [''id'', ''key'', ''event_id'', ''incident_id'', ''action_id'',
         ''skipped_reason'', ''hits'', ''created_at'', ''updated_at'']),
      (''job_runs'', [''id'', ''name'', ''status'', ''detail'', ''started_at'', ''finished_at'']),
      (''check_runs'', [''id'', ''name'', ''asset_external_id'', ''state'', ''detail'',
         ''confirmation_due_at'', ''created_at'', ''updated_at''])]"

text \<open>\<open>create_all\<close> creates the missing tables and leaves the existing ones alone.\<close>

definition create_all :: "schema \<Rightarrow> schema" where
  "create_all s = s\<lparr>table_columns := model_columns ++ table_columns s\<rparr>"

definition create_session_factory ::
  "settings \<Rightarrow> string option \<Rightarrow> schema \<Rightarrow> (exn + engine_config) \<times> schema" where
  "create_session_factory st url_arg s =
     (let engine = build_engine st url_arg
      in case run_migrations (create_all s) of
           (Inl e, s1) \<Rightarrow> (Inl e, s1)
         | (Inr _, s1) \<Rightarrow> (Inr engine, s1))"

section \<open>Start-up leaves a complete schema\<close>

definition schema_complete :: "schema \<Rightarrow> bool" where
  "schema_complete s \<longleftrightarrow>
     (\<forall>t cols. model_columns t = Some cols \<longrightarrow>
        (\<exists>cs. table_columns s t = Some cs \<and> set cols \<subseteq> set cs))"

text \<open>
  A database this program has created, now or before version 1: an existing table lacks
  at most the columns that version 1 added, and none once the version is recorded.
\<close>

definition known_history :: "schema \<Rightarrow> bool" where
  "known_history s \<longleftrightarrow>
     (\<forall>t cols cs. model_columns t = Some cols \<longrightarrow> table_columns s t = Some cs \<longrightarrow>
        set cols - (if schema_version s < 1 then set (added_columns t) else {}) \<subseteq> set cs)"

lemma migrated:
  "snd (run_migrations s) = (if schema_version s < 1 then set_current 1 (upgrade_to_1 (ensure_table s)) else ensure_table s)"
  by (simp add: run_migrations_eq schema_version_def)

lemma migrated_columns:
  "table_columns (snd (run_migrations s)) t =
     map_option (\<lambda>cols. cols @ (if schema_version s < 1 then filter (\<lambda>c. c \<notin> set cols) (added_columns t) else []))
       (table_columns s t)"
  by (simp add: migrated upgrade_columns option.map_ident)

lemma migrated_version: "version_table (snd (run_migrations s)) = Some (Some (max 1 (schema_version s)))"
  by (auto simp: migrated ensure_table_version schema_version_def)

lemma migrated_again:
  assumes "version_table s = Some (Some v)" "1 \<le> v"
  shows "run_migrations s = (Inr (), s)"
proof -
  have "ensure_table s = s" using assms by (simp add: ensure_table_def)
  then show ?thesis using assms by (simp add: run_migrations_eq)
qed

lemma factory_returns:
  "create_session_factory st url s = (Inr (build_engine st url), snd (run_migrations (create_all s)))"
  by (simp add: create_session_factory_def run_migrations_eq Let_def)

text \<open>
  C39. With a SQLite URL, start-up returns the configured engine for every schema and changes
  nothing when it is repeated. It leaves every table of \<open>models.py\<close> present with all its columns exactly when
  the tables that existed lacked at most the columns that version 1 added, and none once
  version 1 was recorded: on a fresh database, on one created before version 1 and on a
  migrated one, but not on others. The engine it configures sets a lock timeout on every
  connection and shares one connection exactly for the in-memory URL.
\<close>

theorem startup_completes_schema:
  assumes "is_sqlite (engine_url (build_engine st url))"
  shows "\<exists>s'. create_session_factory st url s = (Inr (build_engine st url), s') \<and>
    create_session_factory st url s' = (Inr (build_engine st url), s') \<and>
    schema_version s' = max 1 (schema_version s) \<and>
    schema_complete s' = known_history s \<and>
    ''busy_timeout=30000'' \<in> set (connect_pragmas (build_engine st url)) \<and>
    static_pool (build_engine st url) = (engine_url (build_engine st url) = ''sqlite:///:memory:'')"
proof -
  let ?s' = "snd (run_migrations (create_all s))"
  have ver: "schema_version (create_all s) = schema_version s"
    by (simp add: create_all_def schema_version_def)
  have columns: "table_columns ?s' t = (case table_columns s t of
      None \<Rightarrow> Some (cols @ (if schema_version s < 1 then filter (\<lambda>c. c \<notin> set cols) (added_columns t) else []))
    | Some cs \<Rightarrow> Some (cs @ (if schema_version s < 1 then filter (\<lambda>c. c \<notin> set cs) (added_columns t) else [])))"
    if "model_columns t = Some cols" for t cols
    using that by (simp add: migrated_columns ver) (simp add: create_all_def map_add_def split: option.split)
  have complete: "schema_complete ?s' = known_history s"
    unfolding schema_complete_def known_history_def
  proof (intro iff_allI)
    fix t cols
    show "(model_columns t = Some cols \<longrightarrow> (\<exists>cs. table_columns ?s' t = Some cs \<and> set cols \<subseteq> set cs)) =
      (\<forall>cs. model_columns t = Some cols \<longrightarrow> table_columns s t = Some cs \<longrightarrow>
        set cols - (if schema_version s < 1 then set (added_columns t) else {}) \<subseteq> set cs)"
      using columns [of t cols] by (cases "table_columns s t") auto
  qed
  have "table_columns ?s' t \<noteq> None" if "model_columns t = Some cols" for t cols
    using columns [OF that] by (simp split: option.split)
  then have "(model_columns ++ table_columns ?s') t = table_columns ?s' t" for t
    by (cases "table_columns ?s' t"; cases "model_columns t") (auto simp: map_add_def)
  then have "create_all ?s' = ?s'" by (simp add: create_all_def fun_eq_iff)
  moreover have "run_migrations ?s' = (Inr (), ?s')" by (rule migrated_again [OF migrated_version]) simp
  ultimately have again: "create_session_factory st url ?s' = (Inr (build_engine st url), ?s')"
    by (simp add: factory_returns)
  have version: "schema_version ?s' = max 1 (schema_version s)"
    using migrated_version [of "create_all s"] ver by (simp add: schema_version_def)
  have "''busy_timeout=30000'' \<in> set (connect_pragmas (build_engine st url))"
    "static_pool (build_engine st url) = (engine_url (build_engine st url) = ''sqlite:///:memory:'')"
    using assms by (simp_all add: build_engine_def Let_def)
  with factory_returns [of st url s] complete again version show ?thesis by blast
qed

text \<open>A database of the first release: unversioned, without the columns of version 1.\<close>

definition first_release :: schema where
  "first_release = \<lparr>table_columns = map_of
     [(''operational_events'', [''id'', ''asset_id'', ''source'', ''category'', ''severity'', ''message'', ''created_at'']),
      (''actions'', [''id'', ''incident_id'', ''action_type'', ''state'', ''attempts'', ''detail'', ''created_at'', ''updated_at''])],
     altered_columns = Map.empty, version_table = None\<rparr>"

theorem startup_completes_schema_witness:
  "\<exists>s'. create_session_factory default_settings None first_release = (Inr (build_engine default_settings None), s') \<and>
     schema_complete s' \<and> schema_version s' = 1"
proof -
  have "known_history first_release"
    by (auto simp: known_history_def first_release_def model_columns_def added_columns_def schema_version_def
        split: if_splits)
  moreover have "schema_version first_release = 0" by (simp add: first_release_def schema_version_def)
  moreover have "is_sqlite (engine_url (build_engine default_settings None))"
    by (simp add: build_engine_def is_sqlite_def truthy_def default_settings_def)
  ultimately show ?thesis using startup_completes_schema [of default_settings None first_release] by fastforce
qed

end
