(* ===== verification/Benchmark.thy ===== *)
theory Benchmark
  imports Workload Worker
begin

text \<open>
  The engine run of the benchmarks counts what the workload module expects: for every
  number of events, as long as the clock does not lose five minutes between two
  neighbouring events and the queue limit is not reached.
\<close>

section \<open>The synthetic assets\<close>

lemma pad_digits: "\<forall>c \<in> set (pad n k). is_digit c"
  using str_nat_digits [of k] by (auto simp: pad_def is_digit_def Json.code_def)

lemma digits_value_zeros: "digits_value (replicate m CHR ''0'' @ s) = digits_value s"
  by (induction m) (simp_all add: digits_value_def Json.code_def)

lemma digits_value_pad [simp]: "digits_value (pad n k) = k"
  by (simp add: pad_def digits_value_zeros)

lemma pad_split:
  assumes "pad n g @ CHR ''-'' # s = pad n g' @ CHR ''-'' # s'"
  shows "g = g' \<and> s = s'"
proof -
  have stop: "takeWhile is_digit (pad n k @ CHR ''-'' # t) = pad n k"
    "dropWhile is_digit (pad n k @ CHR ''-'' # t) = CHR ''-'' # t" for k t
    using pad_digits [of n k] by (simp_all add: takeWhile_append2 dropWhile_append2) (simp_all add: is_digit_def Json.code_def)
  have "pad n g = pad n g'" using arg_cong [OF assms, of "takeWhile is_digit"] by (simp only: stop)
  then have "g = g'" by (metis digits_value_pad)
  moreover have "s = s'" using arg_cong [OF assms, of "dropWhile is_digit"] by (simp only: stop list.inject)
  ultimately show ?thesis by simp
qed

definition kind :: "nat \<Rightarrow> string" where
  "kind p =
     (if p \<le> 1 then ''-critical'' else if p = 2 then ''-warning'' else if p = 3 then ''-transient''
      else if p = 4 then ''-permanent'' else ''-normal-'' @ pad 2 p)"

lemma kind_dash: "kind p = CHR ''-'' # tl (kind p)"
  by (simp add: kind_def)

abbreviation asset_name_at :: "int \<Rightarrow> nat \<Rightarrow> string" where
  "asset_name_at sd j \<equiv> se_asset_id (event_row sd j)"

lemma asset_name_eq:
  "asset_name_at sd j = ''SYN-'' @ str_int sd @ ''-'' @ pad 6 (j div 20) @ kind (j mod 20)"
  by (simp add: event_row_def Let_def kind_def)

lemma asset_name_inj:
  assumes "asset_name_at sd i = asset_name_at sd j"
  shows "i div 20 = j div 20 \<and> kind (i mod 20) = kind (j mod 20)"
proof -
  have "pad 6 (i div 20) @ CHR ''-'' # tl (kind (i mod 20)) = pad 6 (j div 20) @ CHR ''-'' # tl (kind (j mod 20))"
    using assms unfolding asset_name_eq by (metis same_append_eq kind_dash)
  from pad_split [OF this] show ?thesis by (metis kind_dash)
qed

text \<open>Two events that may open an incident concern different assets.\<close>

lemma opening_assets_differ:
  assumes "i mod 20 \<in> {0, 2, 3, 4}" "j mod 20 \<in> {0, 2, 3, 4}" "asset_name_at sd i = asset_name_at sd j"
  shows "i = j"
proof -
  have kinds: "kind (i mod 20) = kind (j mod 20)" and group: "i div 20 = j div 20"
    using asset_name_inj [OF assms(3)] by auto
  have position: "i mod 20 = j mod 20" using kinds assms(1,2) by (auto simp: kind_def)
  have "i div 20 * 20 + i mod 20 = j div 20 * 20 + j mod 20" by (simp only: group position)
  then show ?thesis by (simp only: div_mult_mod_eq)
qed

lemma duplicate_asset:
  assumes "k mod 20 = 1"
  shows "asset_name_at sd (k - 1) = asset_name_at sd k"
proof -
  define q where "q = k div 20"
  have "k = q * 20 + k mod 20" unfolding q_def by (rule div_mult_mod_eq [symmetric])
  then have k: "k = q * 20 + 1" by (simp only: assms)
  have "(k - 1) mod 20 = 0" "(k - 1) div 20 = k div 20" unfolding k by simp_all
  with assms show ?thesis by (simp add: asset_name_eq kind_def)
qed

section \<open>The payloads\<close>

lemma length_str_nat: "n < 10 ^ Suc k \<Longrightarrow> length (str_nat n) \<le> Suc k"
proof (induction k arbitrary: n)
  case 0
  then show ?case by (subst str_nat.simps) simp
next
  case (Suc k)
  have "n div 10 < 10 ^ Suc k" using Suc.prems by (simp add: less_mult_imp_div_less mult.commute)
  with Suc.IH [of "n div 10"] show ?case by (subst str_nat.simps) simp
qed

lemma length_pad: "length (str_nat k) \<le> m \<Longrightarrow> length (pad n k) \<le> max n m"
  by (simp add: pad_def)

lemma length_kind: "p < 20 \<Longrightarrow> length (kind p) \<le> 10"
  using length_pad [OF length_str_nat [of p 1], of 2] by (simp add: kind_def)

definition payload_at :: "int \<Rightarrow> nat \<Rightarrow> event_create" where
  "payload_at sd j =
     \<lparr>ec_asset_external_id = asset_name_at sd j, ec_source = se_source (event_row sd j),
      ec_category = se_category (event_row sd j), ec_severity = se_severity (event_row sd j),
      ec_message = se_message (event_row sd j), ec_executor_mode = se_executor_mode (event_row sd j),
      ec_idempotency_key = None, ec_correlation_id = None\<rparr>"

lemma length_asset_name:
  assumes "length (str_int sd) \<le> 20" "j < 10 ^ 40"
  shows "len_between 3 80 (asset_name_at sd j)"
proof -
  have "j div 20 < 10 ^ Suc 39" using assms(2) by simp
  from length_pad [OF length_str_nat [OF this], of 6] have "length (pad 6 (j div 20)) \<le> 40" by simp
  moreover have "length (kind (j mod 20)) \<le> 10" by (rule length_kind) simp
  ultimately show ?thesis using assms(1) unfolding asset_name_eq by (simp add: len_between_def)
qed

lemma length_source: "len_between 3 120 (se_source (event_row sd j))"
proof -
  have "nat (sd mod 997) < 10 ^ Suc 2" by (simp add: nat_less_iff)
  moreover have "\<not> sd mod 997 < 0" by (simp add: not_less)
  ultimately have "length (str_int (sd mod 997)) \<le> 3"
    using length_str_nat [of "nat (sd mod 997)" 2] by (simp add: str_int_def)
  then show ?thesis by (simp add: event_row_def Let_def len_between_def)
qed

lemma event_fields:
  "se_category (event_row sd j) =
     (if j mod 20 \<in> {0, 1, 3, 4} then ''offline'' else if j mod 20 = 2 then ''degraded'' else ''heartbeat'')"
  "j mod 20 \<in> {0, 1, 3, 4} \<Longrightarrow> 80 \<le> se_severity (event_row sd j)"
  "j mod 20 = 2 \<Longrightarrow> se_severity (event_row sd j) = 64"
  "1 \<le> se_severity (event_row sd j)" "se_severity (event_row sd j) \<le> 100"
  "se_executor_mode (event_row sd j) =
     (if j mod 20 = 3 then ''transient_then_success'' else if j mod 20 = 4 then ''permanent_failure'' else ''success'')"
  "5 \<le> length (se_message (event_row sd j))"
  by (auto simp: event_row_def Let_def)

lemma payload_ok:
  assumes "length (str_int sd) \<le> 20" "j < 10 ^ 40"
  shows "to_python_payload (event_row sd j) = Inr (payload_at sd j)"
proof -
  have "len_between 2 80 (se_category (event_row sd j))" "len_between 3 40 (se_executor_mode (event_row sd j))"
    by (simp_all add: event_fields(1,6) len_between_def)
  then have "valid_event_create (payload_at sd j)"
    using length_asset_name [OF assms] length_source [of sd j] event_fields(4,5,7) [of sd j]
    by (simp add: valid_event_create_def payload_at_def)
  then show ?thesis by (simp add: to_python_payload_def payload_at_def Let_def)
qed

section \<open>One event\<close>

lemma record_event_reads:
  "ec_correlation_id p = None \<Longrightarrow> reads (snd (record_event E p a w)) = reads w + 2"
  by (simp add: record_event_def correlation_id_or_new_def uuid4_hex_def add_event_def put_asset_def Let_def)

lemma in_cooldown_reads_le: "reads w \<le> reads (snd (in_cooldown E a m w))" "reads (snd (in_cooldown E a m w)) \<le> reads w + 1"
  by (simp_all add: in_cooldown_def Let_def split_beta)

lemma open_incident_details:
  assumes "open_incident E p a r e w = ((e', i, act, sk), w')"
  shows "reads w \<le> reads w' \<and> reads w' \<le> reads w + 6 \<and>
    (\<forall>x. i = Some x \<longrightarrow> incident_state x = incident_state_value IncidentState_OPEN \<and>
       incident_asset_id x = asset_id a \<and> incident_created_at x = clock E (reads w)) \<and>
    (\<forall>x. act = Some x \<longrightarrow> action_state x = action_state_value ActionState_QUEUED \<and> action_attempts x = 0 \<and>
       action_detail x = ec_executor_mode p)"
  using assms
  by (auto simp: open_incident_def Let_def split_beta add_incident_def add_action_def add_audit_def now_utc_def
      split: if_splits)

text \<open>What a processing tells about the clock and the rows it returns.\<close>

lemma process_new_details:
  assumes "ec_correlation_id p = None" "process_new E p w = (Inr (e, i, act, sk), w')"
  shows "reads w' \<le> reads w + 9 \<and>
    (\<forall>x. i = Some x \<longrightarrow> incident_state x = incident_state_value IncidentState_OPEN \<and>
       incident_asset_id x = event_asset_id e \<and>
       (\<exists>n. incident_created_at x = clock E n \<and> n \<le> reads w' \<and> reads w' \<le> n + 6)) \<and>
    (\<forall>x. act = Some x \<longrightarrow> action_state x = action_state_value ActionState_QUEUED \<and> action_attempts x = 0 \<and>
       action_detail x = ec_executor_mode p)"
proof (cases "find_asset (ec_asset_external_id p) w")
  case None
  then show ?thesis using assms(2) by (simp add: process_new_unknown)
next
  case (Some a)
  obtain e1 w1 where rec: "record_event E p a w = (e1, w1)" by fastforce
  have w1: "reads w1 = reads w + 2" "event_asset_id e1 = asset_id a"
    using record_event_reads [OF assms(1), of E a w] record_event_eqD(6) [OF rec] rec by simp_all
  have audit: "reads (add_audit E et en ei m v) = reads v + 1" for et en ei m v by (simp add: add_audit_def)
  consider "match E e1 w1 = None"
    | r where "match E e1 w1 = Some r" "fst (in_cooldown E a (rule_cooldown_minutes r) w1)"
    | r where "match E e1 w1 = Some r" "\<not> fst (in_cooldown E a (rule_cooldown_minutes r) w1)"
    by fastforce
  then show ?thesis
  proof cases
    case 1
    from process_new_no_rule [OF Some rec 1] assms(2) w1 show ?thesis by (auto simp: audit)
  next
    case 2
    from process_new_suppressed [OF Some rec 2] assms(2) w1 in_cooldown_reads_le(2) [of E a "rule_cooldown_minutes r" w1]
    show ?thesis by (auto simp: audit)
  next
    case 3
    let ?w2 = "snd (in_cooldown E a (rule_cooldown_minutes r) w1)"
    have "fst (open_incident E p a r e1 ?w2) = (e, i, act, sk)" "snd (open_incident E p a r e1 ?w2) = w'"
      using process_new_opened [OF Some rec 3] assms(2) by simp_all
    then have opened: "open_incident E p a r e1 ?w2 = ((e, i, act, sk), w')" by (simp add: prod_eq_iff)
    have "e1 = e" using open_incident_rows(1) [OF opened] by simp
    have w2: "reads ?w2 \<le> reads w + 3"
      using w1(1) in_cooldown_reads_le(2) [of E a "rule_cooldown_minutes r" w1] by simp
    note details = open_incident_details [OF opened]
    have "reads w' \<le> reads w + 9" using details w2 by simp
    moreover have "\<exists>n. incident_created_at x = clock E n \<and> n \<le> reads w' \<and> reads w' \<le> n + 6" if "i = Some x" for x
      using details that by (intro exI [of _ "reads ?w2"]) simp
    ultimately show ?thesis using details w1(2) \<open>e1 = e\<close> by simp
  qed
qed

section \<open>The run, event by event\<close>

text \<open>Which asset name belongs to which identifier.\<close>

definition links :: "database \<Rightarrow> (string \<times> int) set" where
  "links d = (\<lambda>a. (asset_external_id a, asset_id a)) ` set (assets d)"

lemma process_new_links:
  assumes "wf w"
  shows "links (db (snd (process_new E p w))) = links (db w)"
proof (cases "find_asset (ec_asset_external_id p) w")
  case None
  then show ?thesis by (simp add: process_new_unknown)
next
  case (Some a)
  then have a: "a \<in> set (assets (db w))" by (auto simp: find_asset_def dest: find_row_SomeD)
  have ids: "inj_on asset_id (set (assets (db w)))" using assms by (auto simp: wf_db_def assets_ok_def distinct_map)
  have same: "map (\<lambda>x. (asset_external_id x, asset_id x)) (put_row asset_id (a\<lparr>asset_status := s\<rparr>) (assets (db w))) =
      map (\<lambda>x. (asset_external_id x, asset_id x)) (assets (db w))" for s
    using inj_onD [OF ids] a by (intro map_other_put_row) force
  have "links (db (snd (record_event E p a w))) = links (db w)"
    unfolding links_def record_event_frame using arg_cong [OF same [of "ec_category p"], of set] by (simp only: set_map)
  moreover have "assets (db (snd (process_new E p w))) = assets (db (snd (record_event E p a w)))"
    using Some by (simp add: process_new_def split_beta Let_def split: option.split)
  ultimately show ?thesis by (simp add: links_def)
qed

definition rule_view :: "automation_rule \<Rightarrow> string \<times> int \<times> int \<times> string \<times> bool" where
  "rule_view r = (rule_category r, rule_minimum_severity r, rule_cooldown_minutes r, rule_action_type r, rule_enabled r)"

definition benchmark_rules :: "(string \<times> int \<times> int \<times> string \<times> bool) list" where
  "benchmark_rules = [(''offline'', 80, 5, ''collect_diagnostics'', True), (''degraded'', 50, 5, ''none'', True)]"

definition opened :: "int \<Rightarrow> (string \<times> int) set \<Rightarrow> nat \<Rightarrow> incident \<Rightarrow> bool" where
  "opened sd L j i \<longleftrightarrow>
     incident_state i = incident_state_value IncidentState_OPEN \<and> (asset_name_at sd j, incident_asset_id i) \<in> L"

definition queued_for :: "int \<Rightarrow> nat \<Rightarrow> action \<Rightarrow> bool" where
  "queued_for sd j a \<longleftrightarrow> action_state a = action_state_value ActionState_QUEUED \<and> action_attempts a = 0 \<and>
     action_detail a = se_executor_mode (event_row sd j)"

definition suppressions :: "database \<Rightarrow> nat" where
  "suppressions d = length (filter (\<lambda>t. t = ''event_suppressed'') (map audit_event_type (audits d)))"

text \<open>The world after the first \<open>k\<close> of \<open>cnt\<close> events.\<close>

definition engine_inv :: "env \<Rightarrow> int \<Rightarrow> nat \<Rightarrow> nat \<Rightarrow> world \<Rightarrow> bool" where
  "engine_inv E sd cnt k w \<longleftrightarrow>
     wf w \<and> (\<forall>j < cnt. asset_name_at sd j \<in> fst ` links (db w)) \<and>
     map rule_view (rules (db w)) = benchmark_rules \<and> length (events (db w)) = k \<and>
     list_all2 (opened sd (links (db w))) (positions {0, 2, 3, 4} k) (incidents (db w)) \<and>
     list_all2 (queued_for sd) (positions {0, 3, 4} k) (actions (db w)) \<and>
     suppressions (db w) = length (positions {1} k) \<and>
     (k mod 20 = 1 \<longrightarrow> (\<exists>i \<in> set (incidents (db w)). opened sd (links (db w)) (k - 1) i \<and>
        (\<exists>n. incident_created_at i = clock E n \<and> n \<le> reads w \<and> reads w \<le> n + 6)))"

text \<open>Fewer than five minutes pass while a few readings of the clock are taken.\<close>

definition quick_clock :: "env \<Rightarrow> bool" where
  "quick_clock E \<longleftrightarrow> (\<forall>n m. m \<le> 10 \<longrightarrow> clock E (n + m) - clock E n \<le> minutes 5)"

lemma links_unique:
  assumes "wf w" "(x, k) \<in> links (db w)" "(y, l) \<in> links (db w)"
  shows "x = y \<longleftrightarrow> k = l"
  using assms unfolding links_def wf_db_def assets_ok_def distinct_map by (auto dest: inj_onD)

lemma positions_mono: "j \<le> k \<Longrightarrow> length (positions P j) \<le> length (positions P k)"
proof (induction k)
  case (Suc k)
  then show ?case by (cases "j = Suc k") (simp_all add: length_positions_Suc)
qed simp

lemma positions_less: "k < cnt \<Longrightarrow> k mod 20 \<in> P \<Longrightarrow> length (positions P k) < length (positions P cnt)"
  using positions_mono [of "Suc k" cnt P] by (simp add: length_positions_Suc)

lemma in_positions: "j \<in> set (positions P k) \<longleftrightarrow> j < k \<and> j mod 20 \<in> P"
  by (auto simp: positions_def)

text \<open>Which rule fires: the critical one, the warning one, or none.\<close>

lemma benchmark_rule:
  assumes "map rule_view rs = benchmark_rules" "event_category e = se_category (event_row sd k)"
    "event_severity e = se_severity (event_row sd k)"
  shows "(\<exists>r \<in> set rs. rule_justifies r e) \<longleftrightarrow> k mod 20 \<le> 4"
    "r \<in> set rs \<Longrightarrow> rule_justifies r e \<Longrightarrow>
       rule_cooldown_minutes r = 5 \<and> (rule_action_type r \<noteq> ''none'' \<longleftrightarrow> k mod 20 \<noteq> 2)"
proof -
  obtain c d where rs: "rs = [c, d]" "rule_view c = (''offline'', 80, 5, ''collect_diagnostics'', True)"
    "rule_view d = (''degraded'', 50, 5, ''none'', True)"
    using assms(1) by (auto simp: benchmark_rules_def map_eq_Cons_conv)
  consider "k mod 20 \<in> {0, 1, 3, 4}" | "k mod 20 = 2" | "4 < k mod 20" by force
  then have which: "(rule_justifies c e \<longleftrightarrow> k mod 20 \<in> {0, 1, 3, 4}) \<and> (rule_justifies d e \<longleftrightarrow> k mod 20 = 2)"
  proof cases
    case 1
    then show ?thesis using rs(2,3) assms(2,3) event_fields(1,2) [where j = k and sd = sd]
      by (auto simp: rule_justifies_def rule_view_def)
  next
    case 2
    then show ?thesis using rs(2,3) assms(2,3) event_fields(1,3) [where j = k and sd = sd]
      by (auto simp: rule_justifies_def rule_view_def)
  next
    case 3
    then show ?thesis using rs(2,3) assms(2) event_fields(1) [where j = k and sd = sd]
      by (auto simp: rule_justifies_def rule_view_def)
  qed
  then show "(\<exists>r \<in> set rs. rule_justifies r e) \<longleftrightarrow> k mod 20 \<le> 4"
    using rs(1) by auto
  show "rule_cooldown_minutes r = 5 \<and> (rule_action_type r \<noteq> ''none'' \<longleftrightarrow> k mod 20 \<noteq> 2)"
    if "r \<in> set rs" "rule_justifies r e"
    using that which rs by (auto simp: rule_view_def)
qed

text \<open>The cooldown suppresses exactly the duplicate.\<close>

lemma benchmark_cooldown:
  assumes "engine_inv E sd cnt k w" "quick_clock E" "(asset_name_at sd k, aid) \<in> links (db w)" "k mod 20 \<le> 4"
  shows "recent_unresolved (db w) aid 5 (clock E (reads w + 2)) \<longleftrightarrow> k mod 20 = 1"
proof
  note inv = assms(1) [unfolded engine_inv_def]
  assume "k mod 20 = 1"
  then obtain i n where i: "i \<in> set (incidents (db w))" "opened sd (links (db w)) (k - 1) i"
    "incident_created_at i = clock E n" "n \<le> reads w" "reads w \<le> n + 6"
    using inv by blast
  have "(asset_name_at sd k, incident_asset_id i) \<in> links (db w)"
    using i(2) duplicate_asset [OF \<open>k mod 20 = 1\<close>] by (simp add: opened_def)
  then have aid: "incident_asset_id i = aid" using links_unique [of w _ _ _ aid] assms(3) inv by metis
  have "reads w + 2 = n + (reads w + 2 - n)" "reads w + 2 - n \<le> 10" using i by simp_all
  then have "clock E (reads w + 2) - clock E n \<le> minutes 5"
    using assms(2) unfolding quick_clock_def by metis
  with i aid show "recent_unresolved (db w) aid 5 (clock E (reads w + 2))"
    by (auto simp: recent_unresolved_def opened_def)
next
  note inv = assms(1) [unfolded engine_inv_def]
  assume "recent_unresolved (db w) aid 5 (clock E (reads w + 2))"
  then obtain i where i: "i \<in> set (incidents (db w))" "incident_asset_id i = aid"
    by (auto simp: recent_unresolved_def)
  have rel: "list_all2 (opened sd (links (db w))) (positions {0, 2, 3, 4} k) (incidents (db w))" and "wf w"
    using inv by simp_all
  obtain j where j: "j \<in> set (positions {0, 2, 3, 4} k)" "opened sd (links (db w)) j i"
    using i(1) rel by (metis in_set_conv_nth list_all2_conv_all_nth)
  then have "asset_name_at sd j = asset_name_at sd k"
    using links_unique [OF \<open>wf w\<close>, of _ aid _ aid] assms(3) i(2) by (auto simp: opened_def)
  moreover have "j < k" "j mod 20 \<in> {0, 2, 3, 4}" using j(1) by (simp_all add: in_positions)
  ultimately show "k mod 20 = 1"
    using opening_assets_differ [of j k sd] assms(4) by (cases "k mod 20 \<in> {0, 2, 3, 4}") auto
qed

text \<open>Processing the event at \<open>k\<close>: the outcome is a function of its position.\<close>

lemma engine_outcome:
  assumes E: "scans_ok E" "quick_clock E" and limit: "int (length (positions {0, 3, 4} cnt)) \<le> max_queue_backlog (cfg E)"
    and inv: "engine_inv E sd cnt k w" and k: "k < cnt"
  obtains e i act sk w' where "process_new E (payload_at sd k) w = (Inr (e, i, act, sk), w')"
    "(asset_name_at sd k, event_asset_id e) \<in> links (db w)"
    "i \<noteq> None \<longleftrightarrow> k mod 20 \<in> {0, 2, 3, 4}" "act \<noteq> None \<longleftrightarrow> k mod 20 \<in> {0, 3, 4}"
    "sk = Some ''cooldown'' \<longleftrightarrow> k mod 20 = 1"
proof -
  let ?p = "payload_at sd k"
  note I = inv [unfolded engine_inv_def]
  have "asset_name_at sd k \<in> fst ` links (db w)" using I k by simp
  then obtain a where found: "find_asset (ec_asset_external_id ?p) w = Some a"
    by (cases "find_asset (ec_asset_external_id ?p) w")
      (auto simp: find_asset_def find_row_None_iff links_def payload_at_def)
  then have "a \<in> set (assets (db w))" "asset_external_id a = asset_name_at sd k"
    by (auto simp: find_asset_def payload_at_def dest: find_row_SomeD)
  then have link: "(asset_name_at sd k, asset_id a) \<in> links (db w)"
    unfolding links_def by (intro image_eqI [of _ _ a]) simp_all
  obtain e w1 where rec: "record_event E ?p a w = (e, w1)" by fastforce
  note facts = record_event_eqD [OF rec]
  have reads: "reads w1 = reads w + 2"
    using record_event_reads [of ?p E a w] rec by (simp add: payload_at_def)
  have e: "event_category e = se_category (event_row sd k)" "event_severity e = se_severity (event_row sd k)"
    using facts by (simp_all add: payload_at_def)
  have view: "map rule_view (rules (db w)) = benchmark_rules" using I by simp
  note rule = benchmark_rule [OF view e]
  obtain i act sk w' where run: "process_new E ?p w = (Inr (e, i, act, sk), w')"
    and dec: "if \<exists>r \<in> set (rules (db w)). rule_justifies r e
      then \<exists>r. best_rule (db w) e r \<and>
        decided (db w) (max_queue_backlog (cfg E)) (asset_id a) (clock E (reads w1)) r i act sk
      else sk = Some ''no_matching_rule''"
    using process_new_decided [OF E(1) found rec] by blast
  have small: "queue_backlog (db w) < max_queue_backlog (cfg E)" if "k mod 20 \<in> {0, 3, 4}"
  proof -
    have "list_all2 (queued_for sd) (positions {0, 3, 4} k) (actions (db w))" using I by simp
    then have "length (actions (db w)) = length (positions {0, 3, 4} k)" by (simp add: list_all2_lengthD)
    then have "queue_backlog (db w) \<le> int (length (positions {0, 3, 4} k))"
      by (metis queue_backlog_def length_filter_le of_nat_le_iff)
    with positions_less [OF k that] limit show ?thesis by simp
  qed
  have "(i \<noteq> None \<longleftrightarrow> k mod 20 \<in> {0, 2, 3, 4}) \<and> (act \<noteq> None \<longleftrightarrow> k mod 20 \<in> {0, 3, 4}) \<and>
      (sk = Some ''cooldown'' \<longleftrightarrow> k mod 20 = 1)"
  proof (cases "k mod 20 \<le> 4")
    case False
    then have sk: "sk = Some ''no_matching_rule''" using dec rule(1) by simp
    with process_new_rows [OF run] have "i = None \<and> act = None" by simp
    with sk False show ?thesis by auto
  next
    case True
    then obtain r where r: "best_rule (db w) e r"
      and d: "decided (db w) (max_queue_backlog (cfg E)) (asset_id a) (clock E (reads w1)) r i act sk"
      using dec rule(1) by auto
    have r5: "rule_cooldown_minutes r = 5" "rule_action_type r \<noteq> ''none'' \<longleftrightarrow> k mod 20 \<noteq> 2"
      using rule(2) [of r] r by (simp_all add: best_rule_def)
    have "recent_unresolved (db w) (asset_id a) 5 (clock E (reads w1)) \<longleftrightarrow> k mod 20 = 1"
      unfolding reads by (rule benchmark_cooldown [OF inv E(2) link True])
    then have cool: "sk = Some ''cooldown'' \<longleftrightarrow> k mod 20 = 1" and i: "i \<noteq> None \<longleftrightarrow> k mod 20 \<noteq> 1"
      using d r5(1) by (simp_all add: decided_def)
    have pos: "k mod 20 \<in> {0, 1, 2, 3, 4}" using True by auto
    have act: "act \<noteq> None \<longleftrightarrow> i \<noteq> None \<and> rule_action_type r \<noteq> ''none'' \<and> queue_backlog (db w) < max_queue_backlog (cfg E)"
      using d by (simp add: decided_def)
    have "k mod 20 \<noteq> 1 \<longleftrightarrow> k mod 20 \<in> {0, 2, 3, 4}" using pos by auto
    moreover have "act \<noteq> None \<longleftrightarrow> k mod 20 \<in> {0, 3, 4}"
      using act i r5(2) small pos by auto
    ultimately show ?thesis using cool i by simp
  qed
  note outcome = this
  have "(asset_name_at sd k, event_asset_id e) \<in> links (db w)" using link facts(6) by simp
  from run this outcome [THEN conjunct1] outcome [THEN conjunct2, THEN conjunct1] outcome [THEN conjunct2, THEN conjunct2]
  show thesis by (rule that)
qed

lemma audit_type_suppressed: "audit_type_of sk = ''event_suppressed'' \<longleftrightarrow> sk = Some ''cooldown''"
  by (auto simp: audit_type_of_def)

lemma positions_Suc: "positions P (Suc k) = positions P k @ (if k mod 20 \<in> P then [k] else [])"
  by (simp add: positions_def)

lemma list_all2_snoc_option:
  assumes "list_all2 R xs ys" "x \<noteq> None \<longleftrightarrow> b" "\<And>y. x = Some y \<Longrightarrow> R k y"
  shows "list_all2 R (xs @ (if b then [k] else [])) (ys @ rows_of x)"
  using assms by (cases x) (auto simp: rows_of_def intro: list_all2_appendI)

lemma engine_step:
  assumes E: "ids_ok E" "scans_ok E" "quick_clock E"
    and limit: "int (length (positions {0, 3, 4} cnt)) \<le> max_queue_backlog (cfg E)"
    and inv: "engine_inv E sd cnt k w" and k: "k < cnt"
  shows "\<exists>r w'. process E (payload_at sd k) w = (Inr r, w') \<and> engine_inv E sd cnt (Suc k) w'"
proof -
  let ?p = "payload_at sd k"
  note I = inv [unfolded engine_inv_def]
  have wf: "wf w" using I by simp
  obtain e i act sk w' where out: "process_new E ?p w = (Inr (e, i, act, sk), w')"
    "(asset_name_at sd k, event_asset_id e) \<in> links (db w)"
    "i \<noteq> None \<longleftrightarrow> k mod 20 \<in> {0, 2, 3, 4}" "act \<noteq> None \<longleftrightarrow> k mod 20 \<in> {0, 3, 4}"
    "sk = Some ''cooldown'' \<longleftrightarrow> k mod 20 = 1"
    by (rule engine_outcome [OF E(2,3) limit inv k])
  have L: "links (db w') = links (db w)" using process_new_links [OF wf, of E ?p] out(1) by simp
  have rules: "rules (db w') = rules (db w)" using process_new_frame(2) [of E ?p w] out(1) by simp
  have wf': "wf w'" using wf_process_new [OF E(1,2) wf, of ?p] out(1) by simp
  have rows: "events (db w') = events (db w) @ [e]" "incidents (db w') = incidents (db w) @ rows_of i"
    "actions (db w') = actions (db w) @ rows_of act"
    "map audit_event_type (audits (db w')) = map audit_event_type (audits (db w)) @ [audit_type_of sk]"
    using process_new_rows [OF out(1)] by simp_all
  have "ec_correlation_id ?p = None" by (simp add: payload_at_def)
  note details = process_new_details [OF this out(1)]
  have new_i: "opened sd (links (db w)) k x" if "i = Some x" for x
    using details that out(2) by (simp add: opened_def)
  have new_a: "queued_for sd k x" if "act = Some x" for x
    using details that by (simp add: queued_for_def payload_at_def)
  have "list_all2 (opened sd (links (db w))) (positions {0, 2, 3, 4} (Suc k)) (incidents (db w'))"
    unfolding positions_Suc rows(2) using I out(3) new_i by (intro list_all2_snoc_option) simp_all
  moreover have "list_all2 (queued_for sd) (positions {0, 3, 4} (Suc k)) (actions (db w'))"
    unfolding positions_Suc rows(3) using I out(4) new_a by (intro list_all2_snoc_option) simp_all
  moreover have "suppressions (db w') = length (positions {1} (Suc k))"
    using I out(5) unfolding suppressions_def rows(4) length_positions_Suc by (simp add: audit_type_suppressed)
  moreover have "\<exists>x \<in> set (incidents (db w')). opened sd (links (db w)) k x \<and>
      (\<exists>n. incident_created_at x = clock E n \<and> n \<le> reads w' \<and> reads w' \<le> n + 6)" if "Suc k mod 20 = 1"
  proof -
    have "k mod 20 = 0" using that by (simp add: mod_Suc split: if_splits)
    then obtain x where x: "i = Some x" using out(3) by auto
    with details rows(2) new_i [OF x] show ?thesis by (auto simp: rows_of_def)
  qed
  ultimately have "engine_inv E sd cnt (Suc k) w'"
    using I wf' by (simp add: engine_inv_def L rules rows(1))
  moreover have "process E ?p w = (Inr (e, i, act, sk, False), w')"
    using out(1) by (simp add: process_def payload_at_def truthy_def)
  ultimately show ?thesis by blast
qed

lemma engine_inv_commit [simp]: "engine_inv E sd cnt k (commit w) = engine_inv E sd cnt k w"
  by (simp add: engine_inv_def)

lemma engine_loop:
  assumes E: "ids_ok E" "scans_ok E" "quick_clock E"
    and limit: "int (length (positions {0, 3, 4} cnt)) \<le> max_queue_backlog (cfg E)"
    and size: "length (str_int sd) \<le> 20" "cnt \<le> 10 ^ 40" and inv: "engine_inv E sd cnt 0 w"
  shows "k \<le> cnt \<Longrightarrow> \<exists>w'. fold (engine_event E) (map (event_row sd) [0 ..< k]) (0, w) = (0, w') \<and>
    engine_inv E sd cnt k w'"
proof (induction k)
  case 0
  then show ?case using inv by simp
next
  case (Suc k)
  then obtain v where v: "fold (engine_event E) (map (event_row sd) [0 ..< k]) (0, w) = (0, v)" "engine_inv E sd cnt k v"
    by auto
  obtain r v' where step: "process E (payload_at sd k) v = (Inr r, v')" "engine_inv E sd cnt (Suc k) v'"
    using engine_step [OF E limit v(2)] Suc.prems by auto
  have "k < 10 ^ 40" using Suc.prems size(2) by linarith
  then have "engine_event E (event_row sd k) (0, v) = (0, commit v')"
    using payload_ok [OF size(1)] step(1) by (simp add: engine_event_def)
  with v(1) step(2) show ?case by simp
qed

section \<open>Before and after the loop\<close>

lemma add_assets_loop:
  "distinct xs \<Longrightarrow> set xs \<inter> asset_external_id ` set (assets (db w)) = {} \<Longrightarrow>
   \<exists>us w'. for_each (\<lambda>x. add_asset E x (nm x) g st) xs w = (Inr us, w') \<and>
     map asset_external_id (assets (db w')) = map asset_external_id (assets (db w)) @ xs \<and>
     rules (db w') = rules (db w) \<and> events (db w') = events (db w) \<and> incidents (db w') = incidents (db w) \<and>
     actions (db w') = actions (db w) \<and> audits (db w') = audits (db w)"
proof (induction xs arbitrary: w)
  case Nil
  then show ?case by simp
next
  case (Cons x xs)
  obtain a w1 where one: "add_asset E x (nm x) g st w = (Inr a, w1)"
    "assets (db w1) = assets (db w) @ [a]" "asset_external_id a = x"
    using Cons.prems(2) by (auto simp: add_asset_def Let_def)
  have same: "rules (db w1) = rules (db w)" "events (db w1) = events (db w)" "incidents (db w1) = incidents (db w)"
    "actions (db w1) = actions (db w)" "audits (db w1) = audits (db w)"
    using add_asset_frame [of E x "nm x" g st w] one(1) by simp_all
  have "set xs \<inter> asset_external_id ` set (assets (db w1)) = {}" "distinct xs"
    using Cons.prems one(2,3) by auto
  then obtain us w' where rest: "for_each (\<lambda>x. add_asset E x (nm x) g st) xs w1 = (Inr us, w')"
    "map asset_external_id (assets (db w')) = map asset_external_id (assets (db w1)) @ xs"
    "rules (db w') = rules (db w1)" "events (db w') = events (db w1)" "incidents (db w') = incidents (db w1)"
    "actions (db w') = actions (db w1)" "audits (db w') = audits (db w1)"
    using Cons.IH [of w1] by auto
  then show ?case using one same by simp
qed

lemma engine_seeded:
  assumes "ids_ok E" "db w = empty_database"
  shows "\<exists>w'. seed_python_database E (map (event_row sd) [0 ..< cnt]) w = (Inr (), w') \<and> engine_inv E sd cnt 0 w'"
proof -
  let ?names = "sort (remdups (map se_asset_id (map (event_row sd) [0 ..< cnt])))"
  have wf: "wf w" using assms(2) by (simp add: wf_empty)
  obtain us w1 where l1: "for_each (\<lambda>x. add_asset E x (''Synthetic '' @ last_chars 24 x) ''benchmark'' ''unknown'') ?names w = (Inr us, w1)"
    and names: "map asset_external_id (assets (db w1)) = ?names"
    and rest: "rules (db w1) = []" "events (db w1) = []" "incidents (db w1) = []" "actions (db w1) = []" "audits (db w1) = []"
    using add_assets_loop [of ?names w E "\<lambda>x. ''Synthetic '' @ last_chars 24 x" "''benchmark''" "''unknown''"] assms(2)
    by auto
  have w1: "wf w1"
    using for_each_invariant [of ?names wf "\<lambda>x. add_asset E x (''Synthetic '' @ last_chars 24 x) ''benchmark'' ''unknown''" w]
      wf_add_asset [OF assms(1)] wf l1 by auto
  let ?rules = "[(''Critical synthetic diagnostic'', ''offline'', 80, ''collect_diagnostics''),
      (''Warning synthetic incident'', ''degraded'', 50, ''none'')]"
    and ?add = "\<lambda>(name, cat, minsev, ty). add_rule E name cat minsev 5 ty True"
  obtain vs w2 where l2: "for_each ?add ?rules w1 = (Inr vs, w2)"
    and view: "map rule_view (rules (db w2)) = benchmark_rules"
    and same: "assets (db w2) = assets (db w1)" "events (db w2) = []" "incidents (db w2) = []" "actions (db w2) = []" "audits (db w2) = []"
    using rest by (simp add: add_rule_def Let_def rule_view_def benchmark_rules_def)
  have w2: "wf w2"
    using for_each_invariant [of ?rules wf ?add w1] wf_add_rule [OF assms(1)] w1 l2 by auto
  have "asset_name_at sd j \<in> fst ` links (db w2)" if "j < cnt" for j
  proof -
    have "asset_name_at sd j \<in> set ?names" using that by auto
    then have "asset_name_at sd j \<in> asset_external_id ` set (assets (db w2))"
      unfolding same(1) names [symmetric] by simp
    then show ?thesis by (simp add: links_def image_image)
  qed
  then have "engine_inv E sd cnt 0 (commit w2)"
    using w2 view same by (simp add: engine_inv_def positions_def suppressions_def)
  moreover have "seed_python_database E (map (event_row sd) [0 ..< cnt]) w = (Inr (), commit w2)"
    using l1 l2 by (simp add: seed_python_database_def)
  ultimately show ?thesis by blast
qed

text \<open>The end state of the action of event \<open>j\<close>.\<close>

definition ended :: "nat \<Rightarrow> action \<Rightarrow> bool" where
  "ended j b \<longleftrightarrow>
     action_state b = action_state_value (if j mod 20 = 4 then ActionState_FAILED else ActionState_SUCCEEDED) \<and>
     action_attempts b = (if j mod 20 = 3 then 2 else 1) \<and>
     (j mod 20 = 4 \<longrightarrow> str_in ''permanent'' (action_detail b))"

lemma finished_ended:
  assumes "queued_for sd j a" "finished 3 (1 / 1000) a b"
  shows "ended j b"
proof -
  have "let (s, n, d) = expected_verdict 3 (1 / 1000) (action_action_type a) (se_executor_mode (event_row sd j))
      in action_state b = action_state_value s \<and> action_attempts b = n \<and> action_detail b = d"
    using assms by (simp add: queued_for_def finished_def)
  then show ?thesis
    unfolding event_fields(6)
    by (cases "j mod 20 = 4"; cases "j mod 20 = 3")
      (simp_all add: ended_def expected_verdict_def fails_once_def)
qed

lemma count_related:
  assumes "list_all2 R js bs" "\<And>j b. R j b \<Longrightarrow> j \<in> set js \<Longrightarrow> P b \<longleftrightarrow> Q j"
  shows "length (filter P bs) = length (filter Q js)"
  using assms by (induction rule: list_all2_induct) auto

lemma sum_related:
  assumes "list_all2 R js bs" "\<And>j b. R j b \<Longrightarrow> f b = g j"
  shows "sum_list (map f bs) = sum_list (map g js)"
  using assms by (induction rule: list_all2_induct) auto

lemma filter_positions: "filter (\<lambda>j. j mod 20 \<in> Q) (positions P k) = positions (P \<inter> Q) k"
  by (auto simp: positions_def intro: filter_cong)

lemma sum_positions:
  "3 \<in> P \<Longrightarrow> sum_list (map (\<lambda>j. if j mod 20 = 3 then 1 else 0) (positions P k)) = int (length (positions {3} k))"
proof (induction k)
  case 0
  then show ?case by (simp add: positions_def)
next
  case (Suc k)
  then show ?case by (auto simp: positions_Suc)
qed

lemma ended_counts:
  assumes "list_all2 ended (positions {0, 3, 4} cnt) as"
  shows "length as = length (positions {0, 3, 4} cnt)"
    "length (filter (\<lambda>a. action_state a = action_state_value ActionState_SUCCEEDED) as) = length (positions {0, 3} cnt)"
    "length (filter (\<lambda>a. action_state a = action_state_value ActionState_FAILED) as) = length (positions {4} cnt)"
    "length (filter (\<lambda>a. action_state a = action_state_value ActionState_FAILED \<and> str_in ''permanent'' (action_detail a)) as) =
       length (positions {4} cnt)"
    "sum_list (map (\<lambda>a. max (action_attempts a - 1) 0) as) = int (length (positions {3} cnt))"
proof -
  show "length as = length (positions {0, 3, 4} cnt)" using assms by (simp add: list_all2_lengthD)
  have "length (filter (\<lambda>a. action_state a = action_state_value ActionState_SUCCEEDED) as) =
      length (filter (\<lambda>j. j mod 20 \<in> {0, 3}) (positions {0, 3, 4} cnt))"
    by (rule count_related [OF assms]) (auto simp: ended_def in_positions)
  then show "length (filter (\<lambda>a. action_state a = action_state_value ActionState_SUCCEEDED) as) = length (positions {0, 3} cnt)"
    unfolding filter_positions by simp
  have "length (filter (\<lambda>a. action_state a = action_state_value ActionState_FAILED) as) =
      length (filter (\<lambda>j. j mod 20 \<in> {4}) (positions {0, 3, 4} cnt))"
    by (rule count_related [OF assms]) (auto simp: ended_def in_positions)
  then show "length (filter (\<lambda>a. action_state a = action_state_value ActionState_FAILED) as) = length (positions {4} cnt)"
    unfolding filter_positions by simp
  have "length (filter (\<lambda>a. action_state a = action_state_value ActionState_FAILED \<and> str_in ''permanent'' (action_detail a)) as) =
      length (filter (\<lambda>j. j mod 20 \<in> {4}) (positions {0, 3, 4} cnt))"
    by (rule count_related [OF assms]) (auto simp: ended_def in_positions)
  then show "length (filter (\<lambda>a. action_state a = action_state_value ActionState_FAILED \<and> str_in ''permanent'' (action_detail a)) as) =
      length (positions {4} cnt)"
    unfolding filter_positions by simp
  have "sum_list (map (\<lambda>a. max (action_attempts a - 1) 0) as) =
      sum_list (map (\<lambda>j. if j mod 20 = 3 then 1 else 0) (positions {0, 3, 4} cnt))"
    by (rule sum_related [OF assms]) (simp add: ended_def)
  then show "sum_list (map (\<lambda>a. max (action_attempts a - 1) 0) as) = int (length (positions {3} cnt))"
    by (simp add: sum_positions)
qed

lemma suppressions_executed:
  assumes "only_executed d d'"
  shows "suppressions d' = suppressions d"
proof -
  obtain more where more: "map audit_event_type (audits d') = map audit_event_type (audits d) @ more"
    "set more \<subseteq> {''action_executed''}"
    using assms by (auto simp: only_executed_def)
  have "filter (\<lambda>t. t = ''event_suppressed'') more = []"
    using more(2) by (auto simp: filter_empty_conv)
  then show ?thesis unfolding suppressions_def more(1) by simp
qed

lemma engine_execution:
  assumes "scans_ok E" "engine_inv E sd cnt cnt w"
  shows "\<exists>w'. execute_each E 3 (1 / 1000) commit
      (filter (\<lambda>a. action_state a = action_state_value ActionState_QUEUED) (scan_actions E (actions (db w)))) w = Some (Inr (), w') \<and>
    python_metrics 0 (db w') = expected_counters cnt"
proof -
  note I = assms(2) [unfolded engine_inv_def]
  let ?as = "filter (\<lambda>a. action_state a = action_state_value ActionState_QUEUED) (scan_actions E (actions (db w)))"
  have rel: "list_all2 (queued_for sd) (positions {0, 3, 4} cnt) (actions (db w))" using I by simp
  have queued: "action_state a = action_state_value ActionState_QUEUED" if a: "a \<in> set (actions (db w))" for a
    using rel a by (auto simp: list_all2_conv_all_nth in_set_conv_nth queued_for_def)
  have ids: "distinct (map action_id (actions (db w)))" using I by (intro wf_action_ids) simp
  then have "distinct (map action_id (scan_actions E (actions (db w))))" by (simp add: scan_distinct [OF assms(1)])
  then have dist: "distinct (map action_id ?as)" by (rule distinct_map_filter)
  have all: "set ?as = set (actions (db w))" using queued by (auto simp: scan_sets [OF assms(1)])
  have good: "\<forall>a \<in> set ?as. live a \<and> a \<in> set (actions (db w))"
    using queued by (auto simp: scan_sets [OF assms(1)])
  have "\<exists>w'. execute_each E 3 (1 / 1000) commit ?as w = Some (Inr (), w') \<and> only_executed (db w) (db w') \<and>
      same_rest (w'\<lparr>saved := saved w\<rparr>) w \<and> ((\<forall>v. saved (commit v) = saved v) \<longrightarrow> saved w' = saved w) \<and>
      list_all2 (\<lambda>a b. if a \<in> set ?as then finished 3 (1 / 1000) a b else b = a) (actions (db w)) (actions (db w'))"
    by (rule execute_each_rows [where after = commit, OF _ _ ids dist good]) simp_all
  then obtain w' where run: "execute_each E 3 (1 / 1000) commit ?as w = Some (Inr (), w')"
    "only_executed (db w) (db w')" "same_rest (w'\<lparr>saved := saved w\<rparr>) w"
    and rows: "list_all2 (\<lambda>a b. if a \<in> set ?as then finished 3 (1 / 1000) a b else b = a) (actions (db w)) (actions (db w'))"
    by (elim exE conjE) (rule that)
  have "list_all2 ended (positions {0, 3, 4} cnt) (actions (db w'))"
    unfolding list_all2_conv_all_nth
  proof (intro conjI allI impI)
    show len: "length (positions {0, 3, 4} cnt) = length (actions (db w'))"
      using list_all2_lengthD [OF rel] list_all2_lengthD [OF rows] by simp
    fix i assume i: "i < length (positions {0, 3, 4} cnt)"
    then have "queued_for sd (positions {0, 3, 4} cnt ! i) (actions (db w) ! i)" by (rule list_all2_nthD [OF rel])
    moreover have "i < length (actions (db w))" using i list_all2_lengthD [OF rel] by simp
    then have "finished 3 (1 / 1000) (actions (db w) ! i) (actions (db w') ! i)"
      using list_all2_nthD [OF rows, of i] unfolding all by simp
    ultimately show "ended (positions {0, 3, 4} cnt ! i) (actions (db w') ! i)" by (rule finished_ended)
  qed
  note counts = ended_counts [OF this]
  have "list_all2 (opened sd (links (db w))) (positions {0, 2, 3, 4} cnt) (incidents (db w))" using I by simp
  then have inc: "length (incidents (db w)) = length (positions {0, 2, 3, 4} cnt)" by (simp add: list_all2_lengthD)
  have "length (filter (\<lambda>l. audit_event_type l = ''event_suppressed'') (audits (db w'))) = suppressions (db w')"
    by (simp add: suppressions_def filter_map comp_def)
  then have "python_metrics 0 (db w') = expected_counters cnt"
    using counts inc run(3) I suppressions_executed [OF run(2)]
    unfolding python_metrics_def expected_counters_positions by (simp add: same_rest_def)
  with run(1) show ?thesis by blast
qed

text \<open>
  C40. The engine run agrees with its reference: for every number of synthetic events whose
  timestamps a \<open>datetime\<close> can hold and every seed, the events are generated and the counters
  that the run reads off the database at the end (events, incidents, actions, suppressions,
  succeeded and failed actions, retries, errors) are exactly the expected ones, whatever
  primary keys and scan orders the SQL engine chooses, provided the queue limit admits the
  expected actions and fewer than five minutes pass between an event and its duplicate. A
  longer workload, past the last second of the year 9999, is never generated.
\<close>

theorem engine_matches_expected:
  assumes "ids_ok E" "scans_ok E" "quick_clock E"
    and "int (ct_actions (expected_counters cnt)) \<le> max_queue_backlog (cfg E)"
    and "length (str_int sd) \<le> 20"
  shows "if latest_second + 1 < cnt then generate_events cnt sd = Inl OverflowError
    else \<exists>evs w'. generate_events cnt sd = Inr evs \<and> length evs = cnt \<and>
      run_python_engine_once E evs w = Some (Inr (expected_counters cnt), w')"
proof (cases "latest_second + 1 < cnt")
  case True
  then show ?thesis by (simp add: generated_events)
next
  case False
  let ?w0 = "w\<lparr>db := empty_database, saved := empty_database\<rparr>" and ?evs = "map (event_row sd) [0 ..< cnt]"
  obtain w1 where seed: "seed_python_database E ?evs ?w0 = (Inr (), w1)" "engine_inv E sd cnt 0 w1"
    using engine_seeded [OF assms(1), of ?w0] by auto
  have limit: "int (length (positions {0, 3, 4} cnt)) \<le> max_queue_backlog (cfg E)"
    using assms(4) by (simp add: expected_counters_positions)
  have size: "cnt \<le> 10 ^ 40" using False by (simp add: latest_second_def)
  from engine_loop [OF assms(1-3) limit assms(5) size seed(2), of cnt]
  obtain w2 where "fold (engine_event E) ?evs (0, w1) = (0, w2)" "engine_inv E sd cnt cnt w2"
    by auto
  with seed(1) engine_execution [OF assms(2), of sd cnt w2]
  have "\<exists>w'. run_python_engine_once E ?evs w = Some (Inr (expected_counters cnt), w')"
    by (auto simp: run_python_engine_once_def)
  with False show ?thesis by (simp add: generated_events)
qed

lemma demo_quick_clock: "quick_clock demo_env"
  by (simp add: quick_clock_def minutes_def)

theorem engine_matches_expected_witness:
  "\<exists>evs w'. generate_events 5 424242 = Inr evs \<and> run_python_engine_once demo_env evs empty_world =
     Some (Inr \<lparr>ct_events = 5, ct_incidents = 4, ct_actions = 3, ct_cooldown_suppressions = 1,
       ct_succeeded_actions = 2, ct_failed_actions = 1, ct_retry_attempts = 1, ct_permanent_failures = 1,
       ct_errors = 0\<rparr>, w')"
proof -
  have expected: "expected_counters 5 = \<lparr>ct_events = 5, ct_incidents = 4, ct_actions = 3,
      ct_cooldown_suppressions = 1, ct_succeeded_actions = 2, ct_failed_actions = 1, ct_retry_attempts = 1,
      ct_permanent_failures = 1, ct_errors = 0\<rparr>"
    by (simp add: expected_counters_positions positions_def upt_conv_Cons)
  have digits: "length (str_int 424242) \<le> 20"
    using length_str_nat [of 424242 5] by (simp add: str_int_def)
  have limit: "int (ct_actions (expected_counters 5)) \<le> max_queue_backlog (cfg demo_env)"
    unfolding expected by (simp add: default_settings_def)
  have "\<not> latest_second + 1 < 5" by (simp add: latest_second_def)
  with engine_matches_expected [OF demo_env_ok(1,2) demo_quick_clock limit digits, of empty_world]
  have "\<exists>evs w'. generate_events 5 424242 = Inr evs \<and> length evs = 5 \<and>
      run_python_engine_once demo_env evs empty_world = Some (Inr (expected_counters 5), w')"
    by (simp only: if_False)
  then show ?thesis unfolding expected by blast
qed

end
