(* ===== verification/Spec2Isabelle.thy ===== *)
theory Spec2Isabelle
  imports Answers Responses Metrics History Columns Logging Fixtures Cli Engine Benchmark
begin

text \<open>
  Verification of the Support Operations Intelligence Platform, a Python service
  (\<open>src/support_operations_intelligence_platform\<close>) that ingests events about assets,
  matches them against automation rules, opens incidents, queues actions, executes them
  with retries, and tracks checks; with its command line demo, contract runner and the
  synthetic workload of its benchmarks.

  \<^bold>\<open>How the parts interact.\<close> The HTTP API (\<open>api/app.py\<close>) runs each request in a session of
  its own, committed on success and rolled back on an exception. \<open>POST /events\<close> goes to the
  event processor (\<open>services/processor.py\<close>), which asks the rule engine
  (\<open>services/rules.py\<close>) for the winning rule and stores an event, an audit entry and, unless
  a cooldown or a full queue prevents it, an incident and a queued action. The action
  service (\<open>services/actions.py\<close>) leases due actions and makes attempts through a transport;
  the jobs (\<open>services/jobs.py\<close>) queue follow-up actions for stale incidents, and the checks
  (\<open>services/checks.py\<close>) have a life cycle of their own. All of them share the tables of
  \<open>models.py\<close> through an SQLAlchemy session (\<open>core/database.py\<close>, \<open>core/migrations.py\<close>).

  \<^bold>\<open>How the state is modelled.\<close> A table is the list of its rows in insertion order, a row a
  record with the columns of \<open>models.py\<close>, \<open>database\<close> the record of the tables. A \<open>world\<close> is
  the session's view (\<open>db\<close>), the committed database (\<open>saved\<close>) and the number of readings
  taken from the environment (\<open>reads\<close>). An operation takes an environment \<open>env\<close> and a world
  and returns an exception or a value, and the new world (\<open>outcome\<close>). The environment
  holds what the code reads but does not define: the clock, the UUID source, what
  concurrent sessions commit while this one waits (\<open>peers\<close>), the settings, and what the SQL
  engine is free to choose, the primary key of a new row (\<open>new_id\<close>) and the order of rows
  without \<open>ORDER BY\<close> (the \<open>scan\<close> functions). The hypotheses \<open>ids_ok\<close>, \<open>scans_ok\<close>, \<open>clock_ok\<close>,
  \<open>peers_ok\<close> and \<open>alone\<close> (no other session) state what the code relies on; \<open>demo_env\<close>
  satisfies them and serves the concrete instances. Python's integers are \<open>int\<close>, floats are
  exact rationals, instants and durations are integers in microseconds, strings are lists
  of code points below 256, and Python's exceptions are the datatype \<open>exn\<close>.

  \<^bold>\<open>The engine.\<close> The database is SQLite behind Python's \<open>sqlite3\<close>, the default of
  \<open>core/settings.py\<close>, as \<open>build_engine\<close> configures it. A transaction of that driver begins with
  the first INSERT, UPDATE or DELETE, not with a query or a savepoint. So the end of a
  \<open>begin_nested\<close> block in a session that has written nothing yet is a commit
  (\<open>release_savepoint\<close> in \<open>Session\<close>), and the idempotency record that the event processor
  inserts in such a block stays behind when the event fails afterwards: \<open>Service\<close> shows that
  its key is then lost. SQLite also decides that \<open>contains\<close> ignores case
  (\<open>like_contains\<close>), that an identifier beyond 64 bits cannot be bound
  (\<open>sqlite_integer\<close>), and that adding a column of any type succeeds.

  \<^bold>\<open>The theories.\<close>

  \<^item> \<open>Prelude\<close>: exceptions, Python's string operations, time. \<open>Tables\<close>: row operations and the
    interfaces \<open>keyed_store\<close> (fetch and write back by key), \<open>row_sweep\<close> (a loop that changes
    selected rows one by one), \<open>ranked_machine\<close> (steps that decrease a rank) and
    \<open>state_order\<close> (steps that go up in an order of states).
  \<^item> \<open>Models\<close>, \<open>Session\<close>: the entities, the inserts with their column defaults and unique
    constraints, commit and rollback. \<open>Integrity\<close>: the database invariant \<open>wf_db\<close> (distinct
    primary keys, unique constraints, foreign keys, stored state values, justified
    incidents), kept by every primitive.
  \<^item> \<open>Schemas\<close>: request bodies with their \<open>Field\<close> constraints, and responses. \<open>Columns\<close>: the
    declared types and widths of the columns as an invariant, and the two columns that the
    code writes wider than declared.
  \<^item> \<open>Rules\<close>, \<open>Processor\<close>, \<open>Idempotency\<close>: \<open>RuleEngine.match\<close> and \<open>EventProcessor\<close>: what an
    event decides and which rows it adds, the cooldown, the queue limit, replay of a stored
    result, the wait for a concurrent one, and the lost race for a key.
  \<^item> \<open>Json\<close>, \<open>Logging\<close>: the part of \<open>json\<close> that the sources use, \<open>log_json\<close>
    (\<open>core/structured_logging.py\<close>) and the lines the processor logs.
  \<^item> \<open>Actions\<close>, \<open>Worker\<close>, \<open>Retry\<close>: one attempt, the retry loop, the transports, the leased
    batch and \<open>ActionWorker.run_once\<close>: refinement of the abstract life cycle of an action,
    termination, verdicts, selection, a round as a whole, draining the queue; and what the
    callers of the retry loop need about a list of actions.
  \<^item> \<open>Checks\<close>, \<open>Jobs\<close>: the transitions and the expiry of checks; the health sweep, the job
    that \<open>build_scheduler\<close> configures, and what repeated sweeps do to the queue.
  \<^item> \<open>Database\<close>, \<open>Engine\<close>: \<open>session_scope\<close> and the interface \<open>unit_of_work\<close>; the migration and
    the cached settings and the start-up (\<open>get_settings\<close>, \<open>build_engine\<close>,
    \<open>create_session_factory\<close>).
  \<^item> \<open>Api\<close>, \<open>Service\<close>, \<open>Answers\<close>, \<open>Responses\<close>, \<open>Metrics\<close>, \<open>History\<close>: the routes and
    \<open>serve\<close>; the worlds that requests and worker runs reach, and what holds in all of them:
    integrity, at most one processing per key, spacing of incidents, justified actions, what
    a failed request leaves behind, the keys that are lost, the status of every answer, answers that fit their response
    models (so that FastAPI's validation of responses, which is not part of \<open>serve\<close>, cannot
    fail), metrics that add up, and a history that, short of a reset, is only extended.
  \<^item> \<open>Seed\<close>, \<open>Cli\<close>, \<open>Contract\<close>: the demo data (\<open>seed.py\<close>), the demo run (\<open>cli.py\<close>) and the
    contract runner (\<open>contract.py\<close>), with the reading of workload files.
  \<^item> \<open>Workload\<close>, \<open>Fixtures\<close>, \<open>Benchmark\<close>: \<open>benchmarks/workload.py\<close> with its fixture files,
    \<open>benchmarks/generate_workloads.py\<close> with its manifest, and the Python engine run of
    \<open>benchmarks/run_python_vs_dotnet.py\<close>, whose counters are the expected ones.

  \<^bold>\<open>Interfaces.\<close> \<open>keyed_store\<close> is interpreted for actions, checks and idempotency records
  (\<open>Session\<close>), \<open>row_sweep\<close> for the due actions (\<open>Worker\<close>) and the overdue checks (\<open>Checks\<close>),
  \<open>ranked_machine\<close> for the life cycles of an action and of a check, \<open>state_order\<close> for the
  growth of the rules and incidents (\<open>Service\<close>) and of the whole history (\<open>History\<close>), and
  \<open>unit_of_work\<close> for \<open>session_scope\<close>, the request session and the worker session; the
  properties rest on the facts of these interpretations.

  \<^bold>\<open>Loops and bounds.\<close> The retry loop is a \<open>partial_function\<close>: \<open>None\<close> is a loop that does not
  return, termination is proved for every transport whose exceptions are handled, and
  non-termination for a skipped action. The wait for an idempotent result makes 100 polls,
  as the code does. The JSON reader has fuel \<open>2 * length + 2\<close>, proved enough for every text
  the writer produces. The engine run is related to its expected counters for
  every number of events whose timestamps lie before the year 10000 (a longer workload
  raises \<open>OverflowError\<close>), while the expected actions fit into the queue and the clock does not lose the five minutes of the
  cooldown between neighbouring events. Everything else holds without a bound.

  \<^bold>\<open>Not modelled.\<close>

  \<^item> SQLAlchemy, FastAPI, pydantic and APScheduler: their documented behaviour is part of the
    session model or a parameter. The validation of a row by \<open>EventCreate\<close> in the contract
    runner and \<open>str\<close> of a compound JSON value are parameters of \<open>Contract\<close>, what
    pydantic-settings makes of the environment (\<open>core/settings.py\<close>) is one of
    \<open>get_settings\<close>, and the random generator one of \<open>Fixtures\<close>. The application object and
    \<open>create_test_app\<close> only configure FastAPI. The relationship attributes of \<open>models.py\<close> are
    not used by the services.
  \<^item> Engines other than SQLite: no PostgreSQL transaction semantics, types or widths.
  \<^item> The ends of Python's calendar, except in \<open>event_at\<close>: instants and durations are unbounded,
    so the \<open>OverflowError\<close> of \<open>datetime\<close> and \<open>timedelta\<close> for settings of many centuries
    (\<open>action_lease_seconds\<close>, \<open>action_retry_delay_seconds\<close>) or a clock near the year 9999 is
    not a branch of \<open>process_due_actions\<close> and \<open>settle\<close>.
  \<^item> Floating point rounding: timeouts, delays and averages are exact.
  \<^item> Code points above 255: JSON texts that contain them are outside the model of \<open>loads\<close>.
  \<^item> Sleeping (in the wait, the default transport and the worker): only the readings of the
    clock are visible.
  \<^item> The HTTP, soak and .NET benchmarks, process control and reports
    under \<open>benchmarks\<close>, which are measurement and formatting around the modelled calls, and
    the tests.
\<close>

end
